(* ===== verification/Prelude.thy ===== *)
theory Prelude
  imports Complex_Main
begin

text \<open>
  Shared vocabulary of the Just Divide model (src/main.js).  The board, the
  undo snapshots and the keep slot of the game are JavaScript arrays and
  nullable references; here they are lists of options.  This theory holds the
  reading of a JavaScript array slot (\<open>cell_at\<close>: a read past the end is
  \<open>undefined\<close>, which the code treats like \<open>null\<close>), the strict test
  \<open>grid[i] === null\<close> (\<open>cell_empty\<close>), the count of occupied slots that
  measures every merge cascade (\<open>occupied\<close>), and the generic lemmas about
  them that the component theories use through \<open>grid_simps\<close> and
  \<open>occupied_simps\<close>; Session.thy collects its frame lemmas in
  \<open>frame_simps\<close>.
\<close>

named_theorems grid_simps "reading and updating board slots"
named_theorems occupied_simps "counting occupied board slots"
named_theorems frame_simps "fields of the game state an operation leaves unchanged"

definition cell_at :: "'a option list \<Rightarrow> nat \<Rightarrow> 'a option" where
  "cell_at xs i = (if i < length xs then xs ! i else None)"

definition cell_empty :: "'a option list \<Rightarrow> nat \<Rightarrow> bool" where
  "cell_empty xs i = (i < length xs \<and> xs ! i = None)"

definition occupied :: "'a option list \<Rightarrow> nat" where
  "occupied xs = length (filter (\<lambda>c. c \<noteq> None) xs)"

lemma cell_at_update_same [grid_simps]:
  "i < length xs \<Longrightarrow> cell_at (xs[i := c]) i = c"
  by (simp add: cell_at_def)

lemma cell_at_update_other [grid_simps]:
  "j \<noteq> i \<Longrightarrow> cell_at (xs[i := c]) j = cell_at xs j"
  by (simp add: cell_at_def)

lemma cell_at_Some_less [grid_simps]:
  "cell_at xs i = Some x \<Longrightarrow> i < length xs"
  by (simp add: cell_at_def split: if_splits)

lemma cell_at_Some_nth [grid_simps]:
  "cell_at xs i = Some x \<Longrightarrow> xs ! i = Some x"
  by (simp add: cell_at_def split: if_splits)

lemma cell_empty_iff [grid_simps]:
  "i < length xs \<Longrightarrow> cell_empty xs i = (cell_at xs i = None)"
  by (simp add: cell_at_def cell_empty_def)

lemma set_conv_cell_at:
  "(x \<in> set xs) = (\<exists>i. cell_at xs i = x \<and> i < length xs)"
  by (auto simp: cell_at_def in_set_conv_nth)

lemma occupied_Nil [occupied_simps]: "occupied [] = 0"
  by (simp add: occupied_def)

lemma occupied_Cons [occupied_simps]:
  "occupied (c # xs) = (if c = None then occupied xs else Suc (occupied xs))"
  by (simp add: occupied_def)

lemma occupied_le_length [occupied_simps]: "occupied xs \<le> length xs"
  by (simp add: occupied_def)

lemma occupied_update [occupied_simps]:
  "i < length xs \<Longrightarrow>
   occupied (xs[i := c]) + (if xs ! i = None then 0 else 1)
     = occupied xs + (if c = None then 0 else 1)"
proof (induction xs arbitrary: i)
  case Nil
  then show ?case by simp
next
  case (Cons x xs)
  show ?case
  proof (cases i)
    case 0
    then show ?thesis by (simp add: occupied_Cons)
  next
    case (Suc j)
    with Cons.prems Cons.IH [of j] show ?thesis
      by (auto simp: occupied_Cons)
  qed
qed

lemma occupied_clear [occupied_simps]:
  "cell_at xs i = Some x \<Longrightarrow> occupied (xs[i := None]) + 1 = occupied xs"
  using occupied_update [of i xs None]
  by (simp add: cell_at_def split: if_splits)

lemma occupied_replace [occupied_simps]:
  "cell_at xs i = Some x \<Longrightarrow> occupied (xs[i := Some y]) = occupied xs"
  using occupied_update [of i xs "Some y"]
  by (simp add: cell_at_def split: if_splits)

lemma occupied_fill [occupied_simps]:
  "cell_empty xs i \<Longrightarrow> occupied (xs[i := Some y]) = occupied xs + 1"
  using occupied_update [of i xs "Some y"]
  by (simp add: cell_empty_def)

lemma occupied_clear_replace [occupied_simps]:
  assumes "cell_at g a = Some x" and "cell_at g b = Some y" and "a \<noteq> b"
  shows "occupied (g[a := None, b := Some z]) < occupied g"
proof -
  have "cell_at (g[a := None]) b = Some y"
    using assms by (simp add: cell_at_update_other)
  then have "occupied (g[a := None, b := Some z]) = occupied (g[a := None])"
    by (rule occupied_replace)
  moreover have "occupied (g[a := None]) + 1 = occupied g"
    using assms(1) by (rule occupied_clear)
  ultimately show ?thesis by simp
qed

lemma occupied_eq_length_iff:
  "(occupied xs = length xs) = (None \<notin> set xs)"
proof (induction xs)
  case Nil
  then show ?case by (simp add: occupied_Nil)
next
  case (Cons c xs)
  have "occupied xs \<le> length xs" by (rule occupied_le_length)
  with Cons.IH show ?case by (auto simp: occupied_Cons)
qed

text \<open>
  Math.random() values are read as exact rationals; the simplifier does not
  take the floor of a rational numeral quotient by itself.
\<close>

lemma floor_numeral_divide_rat [simp]:
  "\<lfloor>(numeral a / numeral b :: rat)\<rfloor> = numeral a div numeral b"
  using floor_divide_of_int_eq [of "numeral a" "numeral b", where 'a = rat] by simp

lemma list_all_tl [simp]: "list_all P xs \<Longrightarrow> list_all P (tl xs)"
  by (cases xs) simp_all

lemma list_all_butlast [simp]: "list_all P xs \<Longrightarrow> list_all P (butlast xs)"
  by (auto simp: list_all_iff dest: in_set_butlastD)

end
