(* ===== verification/Tiles.thy ===== *)
theory Tiles
  imports Prelude
begin

text \<open>
  TileFactory and TileQueue: \<open>replenishQueue\<close> (src/main.js, lines 610--620).
  A tile is the pair \<open>{value, texture}\<close> the code stores in the queue, the keep
  slot, the hand and the snapshots; on the board the texture lives in the
  Phaser container, which is why the board holds the same pair.
  \<open>Math.random()\<close> is an explicit supply of draws \<open>rng :: nat \<Rightarrow> rat\<close>: the
  code reads two draws per tile, the value first and then the colour, and the
  model shifts the supply by two.  The draws are exact rationals in \<open>[0, 1)\<close>;
  the rounding of the floating-point product is not modelled.
\<close>

datatype color = TileBlue | TileOrange | TilePink | TilePurple | TileRed

record tile =
  val :: nat
  tex :: color

type_synonym rng = "nat \<Rightarrow> rat"

definition tile_ok :: "tile \<Rightarrow> bool" where
  "tile_ok t = (2 \<le> val t)"

definition colors :: "color list" where
  "colors = [TileBlue, TileOrange, TilePink, TilePurple, TileRed]"

definition valid_rng :: "rng \<Rightarrow> bool" where
  "valid_rng r = (\<forall>n. 0 \<le> r n \<and> r n < 1)"

definition shift_rng :: "nat \<Rightarrow> rng \<Rightarrow> rng" where
  "shift_rng k r = (\<lambda>n. r (n + k))"

text \<open>\<open>let baseMax = 20; if (difficulty === 1) baseMax = 15; if (difficulty === 3) baseMax = 30;\<close>\<close>

definition base_max :: "nat \<Rightarrow> nat" where
  "base_max difficulty =
     (let b = (if difficulty = 1 then 15 else 20) in if difficulty = 3 then 30 else b)"

definition max_val :: "nat \<Rightarrow> nat \<Rightarrow> nat" where
  "max_val difficulty level = base_max difficulty + level * 2"

text \<open>One iteration of the loop body: two draws, one tile.\<close>

definition gen_tile :: "nat \<Rightarrow> rng \<Rightarrow> tile" where
  "gen_tile max_v r =
     \<lparr>val = nat (\<lfloor>r 0 * of_nat (max_v - 1)\<rfloor> + 2),
      tex = colors ! nat \<lfloor>r 1 * of_nat (length colors)\<rfloor>\<rparr>"

text \<open>\<open>while (queue.length < 5) { ... queue.push(...) }\<close>\<close>

function replenish_loop :: "nat \<Rightarrow> tile list \<Rightarrow> rng \<Rightarrow> tile list \<times> rng" where
  "replenish_loop max_v q r =
     (if length q < 5 then replenish_loop max_v (q @ [gen_tile max_v r]) (shift_rng 2 r)
      else (q, r))"
  by pat_completeness auto
termination
  by (relation "measure (\<lambda>(max_v, q, r). 5 - length q)") auto

declare replenish_loop.simps [simp del]

lemma valid_rng_shift [intro]: "valid_rng r \<Longrightarrow> valid_rng (shift_rng k r)"
  by (simp add: valid_rng_def shift_rng_def)

lemma shift_rng_0 [simp]: "shift_rng 0 r = r"
  by (simp add: shift_rng_def)

lemma shift_rng_shift_rng [simp]: "shift_rng j (shift_rng k r) = shift_rng (j + k) r"
  by (simp add: shift_rng_def add.assoc)

lemma length_colors: "length colors = 5"
  by (simp add: colors_def)

lemma base_max_ge: "15 \<le> base_max d"
  by (simp add: base_max_def Let_def)

lemma max_val_ge: "15 \<le> max_val d l"
  using base_max_ge [of d] by (simp add: max_val_def)

lemma floor_draw_bounds:
  assumes "0 \<le> x" and "x < 1"
  shows "0 \<le> \<lfloor>x * of_nat n\<rfloor> \<and> \<lfloor>x * of_nat n\<rfloor> < int n \<or> n = 0"
proof (cases "n = 0")
  case True
  then show ?thesis by simp
next
  case False
  then have "x * of_nat n < of_nat n"
    using assms by (simp add: mult_less_cancel_right1)
  then have "\<lfloor>x * of_nat n\<rfloor> < int n"
    by (simp add: floor_less_iff)
  moreover have "0 \<le> \<lfloor>x * of_nat n\<rfloor>"
    using assms by simp
  ultimately show ?thesis by simp
qed

lemma gen_tile_val_bounds:
  assumes "valid_rng r" and "2 \<le> max_v"
  shows "2 \<le> val (gen_tile max_v r) \<and> val (gen_tile max_v r) \<le> max_v"
proof -
  define f where "f = \<lfloor>r 0 * of_nat (max_v - 1)\<rfloor>"
  have r0: "0 \<le> r 0" "r 0 < 1" using assms(1) by (auto simp: valid_rng_def)
  have "0 \<le> f \<and> f < int (max_v - 1)"
    using floor_draw_bounds [OF r0, of "max_v - 1"] assms(2) by (auto simp: f_def)
  then have "2 \<le> nat (f + 2) \<and> nat (f + 2) \<le> max_v"
    using assms(2) by linarith
  moreover have "val (gen_tile max_v r) = nat (f + 2)"
    unfolding gen_tile_def f_def by simp
  ultimately show ?thesis by simp
qed

lemma gen_tile_ok:
  "valid_rng r \<Longrightarrow> tile_ok (gen_tile (max_val d l) r)"
  using gen_tile_val_bounds [of r "max_val d l"] max_val_ge [of d l] by (simp add: tile_ok_def)

lemma gen_tile_color:
  assumes "valid_rng r"
  shows "tex (gen_tile max_v r) \<in> set colors"
proof -
  have r1: "0 \<le> r 1" "r 1 < 1" using assms by (auto simp: valid_rng_def)
  define f where "f = \<lfloor>r 1 * of_nat (length colors)\<rfloor>"
  have "0 \<le> f \<and> f < int (length colors)"
    using floor_draw_bounds [OF r1, of "length colors"] by (simp add: f_def length_colors)
  then have "nat f < length colors"
    by linarith
  then show ?thesis unfolding gen_tile_def f_def by simp
qed

lemma replenish_loop_prefix:
  "\<exists>new. fst (replenish_loop max_v q r) = q @ new"
proof (induction max_v q r rule: replenish_loop.induct)
  case (1 max_v q r)
  then show ?case
    by (subst replenish_loop.simps) (auto split: if_splits)
qed

lemma replenish_loop_length:
  "length (fst (replenish_loop max_v q r)) = max 5 (length q)"
proof (induction max_v q r rule: replenish_loop.induct)
  case (1 max_v q r)
  then show ?case
    by (subst replenish_loop.simps) (auto split: if_splits)
qed

lemma replenish_loop_rng:
  "\<exists>k. snd (replenish_loop max_v q r) = shift_rng k r"
proof (induction max_v q r rule: replenish_loop.induct)
  case (1 max_v q r)
  show ?case
  proof (cases "length q < 5")
    case True
    with "1.IH" obtain k where
      "snd (replenish_loop max_v (q @ [gen_tile max_v r]) (shift_rng 2 r))
         = shift_rng k (shift_rng 2 r)"
      by blast
    with True show ?thesis
      by (subst replenish_loop.simps) auto
  next
    case False
    then have "snd (replenish_loop max_v q r) = shift_rng 0 r"
      by (subst replenish_loop.simps) simp
    then show ?thesis by blast
  qed
qed

text \<open>Every tile of the refilled queue is an old tile or a tile drawn from the supply.\<close>

lemma replenish_loop_tiles:
  assumes "\<forall>t \<in> set q. P t"
    and "\<forall>j. P (gen_tile max_v (shift_rng j r))"
  shows "\<forall>t \<in> set (fst (replenish_loop max_v q r)). P t"
  using assms
proof (induction max_v q r rule: replenish_loop.induct)
  case (1 max_v q r)
  show ?case
  proof (cases "length q < 5")
    case True
    have "P (gen_tile max_v r)"
      using "1.prems"(2) [rule_format, of 0] by simp
    then have q': "\<forall>t \<in> set (q @ [gen_tile max_v r]). P t"
      using "1.prems"(1) by simp
    have r': "\<forall>j. P (gen_tile max_v (shift_rng j (shift_rng 2 r)))"
      using "1.prems"(2) by simp
    have "\<forall>t \<in> set (fst (replenish_loop max_v (q @ [gen_tile max_v r]) (shift_rng 2 r))). P t"
      by (rule "1.IH" [OF True q' r'])
    with True show ?thesis
      by (subst replenish_loop.simps) simp
  next
    case False
    with "1.prems" show ?thesis
      by (subst replenish_loop.simps) simp
  qed
qed

text \<open>
  C9: every tile the factory draws has a value between 2 and
  \<open>maxVal = baseMax(difficulty) + level * 2\<close>, both included, and one of the
  five colours.
\<close>

theorem generated_tile_bounds:
  assumes "valid_rng r"
  shows "2 \<le> val (gen_tile (max_val d l) r) \<and> val (gen_tile (max_val d l) r) \<le> max_val d l
         \<and> tex (gen_tile (max_val d l) r) \<in> set colors"
  using gen_tile_val_bounds [OF assms, of "max_val d l"] max_val_ge [of d l] gen_tile_color [OF assms]
  by simp

lemma generated_tile_bounds_witness:
  "2 \<le> val (gen_tile (max_val 2 3) (\<lambda>n. 1/2)) \<and> val (gen_tile (max_val 2 3) (\<lambda>n. 1/2)) \<le> max_val 2 3"
proof -
  have "valid_rng (\<lambda>n. 1/2)" by (simp add: valid_rng_def)
  from generated_tile_bounds [OF this, of 2 3] show ?thesis by simp
qed

text \<open>
  C10: \<open>replenishQueue\<close> terminates, keeps the queued tiles in front, and leaves
  \<open>max 5 (length q)\<close> tiles, every new one drawn by the factory.
\<close>

theorem replenish_loop_result:
  "(\<exists>new. fst (replenish_loop m q r) = q @ new
          \<and> (\<forall>t \<in> set new. \<exists>j. t = gen_tile m (shift_rng j r)))
   \<and> length (fst (replenish_loop m q r)) = max 5 (length q)"
proof (induction m q r rule: replenish_loop.induct)
  case (1 m q r)
  show ?case
  proof (cases "length q < 5")
    case True
    with "1.IH" obtain new where
      new: "fst (replenish_loop m (q @ [gen_tile m r]) (shift_rng 2 r)) = (q @ [gen_tile m r]) @ new"
        "\<forall>t \<in> set new. \<exists>j. t = gen_tile m (shift_rng j (shift_rng 2 r))"
      and len: "length (fst (replenish_loop m (q @ [gen_tile m r]) (shift_rng 2 r)))
                  = max 5 (length (q @ [gen_tile m r]))"
      by blast
    have "\<forall>t \<in> set (gen_tile m r # new). \<exists>j. t = gen_tile m (shift_rng j r)"
      using new(2) by (auto intro: exI [of _ 0])
    moreover have "fst (replenish_loop m q r) = q @ (gen_tile m r # new)"
      using True new(1) by (subst replenish_loop.simps) simp
    moreover have "length (fst (replenish_loop m q r)) = max 5 (length q)"
      using True len by (subst replenish_loop.simps) simp
    ultimately show ?thesis by blast
  next
    case False
    then show ?thesis
      by (subst (1 2) replenish_loop.simps) simp
  qed
qed

lemma replenish_loop_result_witness:
  "length (fst (replenish_loop 17 [\<lparr>val = 4, tex = TileRed\<rparr>] (\<lambda>n. 0))) = 5
   \<and> hd (fst (replenish_loop 17 [\<lparr>val = 4, tex = TileRed\<rparr>] (\<lambda>n. 0))) = \<lparr>val = 4, tex = TileRed\<rparr>"
  using replenish_loop_result [of 17 "[\<lparr>val = 4, tex = TileRed\<rparr>]" "\<lambda>n. 0"] by auto

end
