(* ===== verification/Grid.thy ===== *)
theory Grid
  imports Tiles
begin

text \<open>
  GridState: the 16-slot board \<open>grid\<close> of src/main.js (line 70) with row-major
  indices (\<open>row = floor(index / 4)\<close>, \<open>col = index % 4\<close>), the neighbour
  list that \<open>checkMerges\<close> (lines 480--487) and \<open>checkIfMergePossible\<close>
  (lines 827--843) both build in the order up, down, left, right, the
  qualifying test of a neighbour (match or divide, lines 489--496), the search
  for the first qualifying neighbour, and the hint predicate.  The main
  results: every neighbour index is in range, adjacent and different from the
  cell itself, and the hint predicate agrees with the merge search on the
  board where the tile has been placed.
\<close>

type_synonym cell = "tile option"
type_synonym grid = "cell list"

definition empty_grid :: grid where
  "empty_grid = replicate 16 None"

definition neighbor_positions :: "nat \<Rightarrow> (int \<times> int) list" where
  "neighbor_positions index =
     (let row = int index div 4; col = int index mod 4
      in [(row - 1, col), (row + 1, col), (row, col - 1), (row, col + 1)])"

definition in_bounds :: "int \<times> int \<Rightarrow> bool" where
  "in_bounds pos = (0 \<le> fst pos \<and> fst pos < 4 \<and> 0 \<le> snd pos \<and> snd pos < 4)"

definition pos_index :: "int \<times> int \<Rightarrow> nat" where
  "pos_index pos = nat (fst pos * 4 + snd pos)"

text \<open>\<open>neighbor.value === currentTile.value\<close>\<close>

definition is_match :: "tile \<Rightarrow> tile \<Rightarrow> bool" where
  "is_match cur nb = (val nb = val cur)"

text \<open>
  \<open>big % small === 0\<close>: in JavaScript \<open>x % 0\<close> is \<open>NaN\<close>, which is not
  \<open>0\<close>, so a zero divisor never divides.
\<close>

definition js_divides :: "nat \<Rightarrow> nat \<Rightarrow> bool" where
  "js_divides big small = (small \<noteq> 0 \<and> big mod small = 0)"

definition is_divide :: "tile \<Rightarrow> tile \<Rightarrow> bool" where
  "is_divide cur nb =
     (\<not> is_match cur nb \<and> js_divides (max (val cur) (val nb)) (min (val cur) (val nb)))"

text \<open>
  The \<open>for (let pos of neighbors)\<close> loop of \<open>checkMerges\<close> up to the first
  neighbour for which \<open>match || divide\<close> holds; it returns that neighbour's
  index and tile.
\<close>

fun find_partner :: "grid \<Rightarrow> tile \<Rightarrow> (int \<times> int) list \<Rightarrow> (nat \<times> tile) option" where
  "find_partner g cur [] = None"
| "find_partner g cur (pos # ps) =
     (if in_bounds pos then
        (case cell_at g (pos_index pos) of
           Some nb \<Rightarrow>
             if is_match cur nb \<or> is_divide cur nb then Some (pos_index pos, nb)
             else find_partner g cur ps
         | None \<Rightarrow> find_partner g cur ps)
      else find_partner g cur ps)"

text \<open>The loop of \<open>checkIfMergePossible(index, incomingValue)\<close>.\<close>

fun merge_possible_loop :: "grid \<Rightarrow> nat \<Rightarrow> (int \<times> int) list \<Rightarrow> bool" where
  "merge_possible_loop g v [] = False"
| "merge_possible_loop g v (pos # ps) =
     (if in_bounds pos then
        (case cell_at g (pos_index pos) of
           Some nb \<Rightarrow>
             if val nb = v then True
             else if js_divides (max (val nb) v) (min (val nb) v) then True
             else merge_possible_loop g v ps
         | None \<Rightarrow> merge_possible_loop g v ps)
      else merge_possible_loop g v ps)"

definition check_if_merge_possible :: "grid \<Rightarrow> nat \<Rightarrow> nat \<Rightarrow> bool" where
  "check_if_merge_possible g index incoming_value =
     merge_possible_loop g incoming_value (neighbor_positions index)"

text \<open>The cells \<open>showHintsFor(value)\<close> highlights (lines 814--824).\<close>

definition hint_cells :: "grid \<Rightarrow> nat \<Rightarrow> nat list" where
  "hint_cells g v = filter (\<lambda>i. cell_empty g i \<and> check_if_merge_possible g i v) [0..<16]"

text \<open>The in-range neighbour indices, in the order the loops visit them.\<close>

definition neighbors_of :: "nat \<Rightarrow> nat list" where
  "neighbors_of index = map pos_index (filter in_bounds (neighbor_positions index))"

text \<open>
  The neighbour contract of the specification: the orthogonal cells up, down,
  left and right, each kept only where it lies on the board.
\<close>

definition adjacent_cells :: "nat \<Rightarrow> nat list" where
  "adjacent_cells i =
     (if 4 \<le> i then [i - 4] else []) @ (if i < 12 then [i + 4] else []) @
     (if i mod 4 \<noteq> 0 then [i - 1] else []) @ (if i mod 4 \<noteq> 3 then [i + 1] else [])"

subsection \<open>Neighbour indices\<close>

lemma int_div_mod_four: "int i div 4 = int (i div 4)" "int i mod 4 = int (i mod 4)"
  by (simp_all add: zdiv_int zmod_int)

lemma pos_index_shift:
  "pos_index (int i div 4 + a, int i mod 4 + b) = nat (int i + 4 * a + b)"
proof -
  have "(int i div 4 + a) * 4 + (int i mod 4 + b) = (int i div 4 * 4 + int i mod 4) + 4 * a + b"
    by (simp add: algebra_simps)
  also have "int i div 4 * 4 + int i mod 4 = int i"
    by (rule div_mult_mod_eq)
  finally show ?thesis by (simp add: pos_index_def)
qed

lemma pos_index_up: "4 \<le> i \<Longrightarrow> pos_index (int i div 4 - 1, int i mod 4) = i - 4"
  using pos_index_shift [of i "-1" 0] by simp

lemma pos_index_down: "pos_index (int i div 4 + 1, int i mod 4) = i + 4"
  using pos_index_shift [of i 1 0] by simp

lemma pos_index_left: "i mod 4 \<noteq> 0 \<Longrightarrow> pos_index (int i div 4, int i mod 4 - 1) = i - 1"
  using pos_index_shift [of i 0 "-1"] by simp

lemma pos_index_right: "pos_index (int i div 4, int i mod 4 + 1) = i + 1"
  using pos_index_shift [of i 0 1] by simp

lemma in_bounds_up: "in_bounds (int i div 4 - 1, int i mod 4) = (4 \<le> i \<and> i < 20)"
  unfolding in_bounds_def int_div_mod_four by simp arith

lemma in_bounds_down: "in_bounds (int i div 4 + 1, int i mod 4) = (i < 12)"
  unfolding in_bounds_def int_div_mod_four by simp arith

lemma in_bounds_left: "in_bounds (int i div 4, int i mod 4 - 1) = (i < 16 \<and> i mod 4 \<noteq> 0)"
  unfolding in_bounds_def int_div_mod_four by simp arith

lemma in_bounds_right: "in_bounds (int i div 4, int i mod 4 + 1) = (i < 16 \<and> i mod 4 \<noteq> 3)"
  unfolding in_bounds_def int_div_mod_four by simp arith

lemmas neighbor_arith = pos_index_up pos_index_down pos_index_left pos_index_right
  in_bounds_up in_bounds_down in_bounds_left in_bounds_right

lemma neighbor_position_facts:
  assumes "p \<in> set (neighbor_positions i)" and "in_bounds p"
  shows "pos_index p < 16 \<and> pos_index p \<noteq> i"
  using assms unfolding neighbor_positions_def Let_def
  by (auto simp: neighbor_arith; presburger)

lemma neighbors_of_table: "list_all (\<lambda>i. neighbors_of i = adjacent_cells i) [0..<16]"
  by code_simp

text \<open>
  C8: for every cell of the board, the neighbours \<open>checkMerges\<close> visits are
  the orthogonal cells up, down, left and right, in that order, each kept only
  where it lies on the board.
\<close>

lemma neighbors_of_explicit:
  assumes "i < 16"
  shows "neighbors_of i = adjacent_cells i"
  using neighbors_of_table assms by (simp add: list_all_iff)

lemma find_partner_Some:
  "find_partner g cur ps = Some (n, nb) \<Longrightarrow>
   cell_at g n = Some nb \<and> (is_match cur nb \<or> is_divide cur nb) \<and>
   (\<exists>p \<in> set ps. in_bounds p \<and> pos_index p = n)"
  by (induction g cur ps rule: find_partner.induct) (auto split: if_splits option.splits)

lemma find_partner_update_other:
  "\<forall>p \<in> set ps. in_bounds p \<longrightarrow> pos_index p \<noteq> i \<Longrightarrow>
   find_partner (g[i := c]) cur ps = find_partner g cur ps"
  by (induction g cur ps rule: find_partner.induct) (auto simp: cell_at_update_other split: option.splits)

lemma merge_possible_loop_find_partner:
  "merge_possible_loop g (val t) ps = (find_partner g t ps \<noteq> None)"
  by (induction g t ps rule: find_partner.induct)
    (auto simp: is_match_def is_divide_def max.commute min.commute split: option.splits)

text \<open>
  C7: the hint shown for an empty cell (\<open>checkIfMergePossible\<close>) holds exactly
  when placing the tile there would give \<open>checkMerges\<close> a qualifying
  neighbour: both use the same neighbour order and the same match or divide
  test.
\<close>

lemma hint_iff_partner:
  assumes "cell_empty g i"
  shows "check_if_merge_possible g i (val t) =
         (find_partner (g[i := Some t]) t (neighbor_positions i) \<noteq> None)"
proof -
  have "\<forall>p \<in> set (neighbor_positions i). in_bounds p \<longrightarrow> pos_index p \<noteq> i"
    using neighbor_position_facts by blast
  then show ?thesis
    by (simp add: check_if_merge_possible_def merge_possible_loop_find_partner
        find_partner_update_other)
qed

lemma partner_facts:
  assumes "find_partner g cur (neighbor_positions index) = Some (n, nb)"
  shows "cell_at g n = Some nb \<and> n \<noteq> index \<and> n < 16 \<and> (is_match cur nb \<or> is_divide cur nb)"
  using find_partner_Some [OF assms] neighbor_position_facts by blast

lemma neighbors_of_explicit_witness:
  "neighbors_of 5 = [1, 9, 4, 6] \<and> neighbors_of 0 = [4, 1] \<and> neighbors_of 15 = [11, 14]"
  using neighbors_of_explicit [of 5] neighbors_of_explicit [of 0] neighbors_of_explicit [of 15]
  by (simp add: adjacent_cells_def)

lemma hint_iff_partner_witness:
  "check_if_merge_possible (empty_grid[5 := Some \<lparr>val = 6, tex = TileRed\<rparr>]) 1 3
   \<and> find_partner (empty_grid[5 := Some \<lparr>val = 6, tex = TileRed\<rparr>, 1 := Some \<lparr>val = 3, tex = TileBlue\<rparr>])
       \<lparr>val = 3, tex = TileBlue\<rparr> (neighbor_positions 1) \<noteq> None"
proof -
  have e: "cell_empty (empty_grid[5 := Some \<lparr>val = 6, tex = TileRed\<rparr>]) 1"
    by code_simp
  have h: "check_if_merge_possible (empty_grid[5 := Some \<lparr>val = 6, tex = TileRed\<rparr>]) 1 3"
    by code_simp
  from hint_iff_partner [OF e, of "\<lparr>val = 3, tex = TileBlue\<rparr>"] h show ?thesis by simp
qed

end
