(* ===== verification/Merge.thy ===== *)
theory Merge
  imports Grid
begin

text \<open>
  MergeResolver: \<open>checkMerges(index, scene)\<close> (src/main.js, lines 476--571)
  on the board.  The function reads the tile at \<open>index\<close>, takes the first
  qualifying neighbour, and either clears both cells (match) or clears the
  smaller tile, writes the quotient into the larger tile's cell and resolves
  again from that cell (divide).  Its effects on the rest of the session
  (\<open>isMerging\<close>, the \<open>addScore\<close> calls, the tween callbacks) are the
  events it returns; Session.thy applies them.  The recursion terminates
  because every recursive call is made on a board with one tile fewer.
\<close>

datatype merge_event =
    MatchEv nat nat          \<comment> \<open>both cells cleared: \<open>index\<close>, \<open>nIndex\<close>\<close>
  | DivideEv nat nat nat     \<comment> \<open>removed cell, survivor cell, quotient\<close>

text \<open>
  One activation of \<open>checkMerges\<close> up to its recursive call: \<open>Settled\<close> when
  the cell is empty or no neighbour qualifies (the loop ends without a
  \<open>return\<close>), \<open>Matched\<close> for the match branch (lines 502--516),
  \<open>Divided\<close> for the divide branch (lines 518--565) with the survivor's index
  on which the code recurses.
\<close>

datatype merge_step =
    Settled
  | Matched grid merge_event
  | Divided grid merge_event nat

definition merge_once :: "nat \<Rightarrow> grid \<Rightarrow> merge_step" where
  "merge_once index g =
     (case cell_at g index of
        None \<Rightarrow> Settled
      | Some cur \<Rightarrow>
          (case find_partner g cur (neighbor_positions index) of
             None \<Rightarrow> Settled
           | Some (n_index, nb) \<Rightarrow>
               (let big = max (val cur) (val nb);
                    small = min (val cur) (val nb);
                    result = big div small
                in if is_match cur nb \<or> (is_divide cur nb \<and> small \<noteq> 0 \<and> big = small)
                   then Matched (g[index := None, n_index := None]) (MatchEv index n_index)
                   else if val cur = small
                   then Divided (g[index := None, n_index := Some (nb\<lparr>val := result\<rparr>)])
                          (DivideEv index n_index result) n_index
                   else Divided (g[n_index := None, index := Some (cur\<lparr>val := result\<rparr>)])
                          (DivideEv n_index index result) index)))"

definition removed_tiles :: "merge_event \<Rightarrow> nat" where
  "removed_tiles e = (case e of MatchEv a b \<Rightarrow> 2 | DivideEv a b q \<Rightarrow> 1)"

definition event_cells :: "merge_event \<Rightarrow> nat set" where
  "event_cells e = (case e of MatchEv a b \<Rightarrow> {a, b} | DivideEv a b q \<Rightarrow> {a, b})"

fun stop_site :: "nat \<Rightarrow> merge_event list \<Rightarrow> nat" where
  "stop_site i [] = i"
| "stop_site i (MatchEv a b # evs) = a"
| "stop_site i (DivideEv a s q # evs) = stop_site s evs"

definition cell_ok :: "tile option \<Rightarrow> bool" where
  "cell_ok c = (case c of None \<Rightarrow> True | Some t \<Rightarrow> tile_ok t)"

definition tiles_ok :: "grid \<Rightarrow> bool" where
  "tiles_ok g = list_all cell_ok g"

function check_merges :: "nat \<Rightarrow> grid \<Rightarrow> grid \<times> merge_event list" where
  "check_merges index g =
     (case merge_once index g of
        Settled \<Rightarrow> (g, [])
      | Matched g' e \<Rightarrow> (g', [e])
      | Divided g' e survivor \<Rightarrow> apsnd ((#) e) (check_merges survivor g'))"
  by pat_completeness auto
termination
proof (relation "measure (\<lambda>(index, g). occupied g)", goal_cases)
  case 1
  show ?case by simp
next
  case (2 index g g' e s)
  then obtain cur n nb where cur: "cell_at g index = Some cur"
    and p: "find_partner g cur (neighbor_positions index) = Some (n, nb)"
    by (auto simp: merge_once_def split: option.splits)
  have n: "cell_at g n = Some nb" "n \<noteq> index"
    using partner_facts [OF p] by simp_all
  define q where "q = max (val cur) (val nb) div min (val cur) (val nb)"
  have "g' = g[index := None, n := Some (nb\<lparr>val := q\<rparr>)]
      \<or> g' = g[n := None, index := Some (cur\<lparr>val := q\<rparr>)]"
    using 2 cur p by (auto simp: merge_once_def Let_def q_def split: if_splits)
  then show ?case
    using occupied_clear_replace [OF cur n(1) n(2) [symmetric]]
      occupied_clear_replace [OF n(1) cur n(2)] by auto
qed

declare check_merges.simps [simp del]

subsection \<open>One activation\<close>

lemma divide_quotient_ge2:
  assumes "js_divides big small" and "small < big"
  shows "2 \<le> big div small"
proof (rule ccontr)
  assume "\<not> 2 \<le> big div small"
  then have "big div small \<le> 1" by simp
  then have "small * (big div small) \<le> small" by simp
  moreover have "small * (big div small) = big"
    using assms(1) mult_div_mod_eq [of small big] by (simp add: js_divides_def)
  ultimately show False using assms(2) by simp
qed

lemma merge_once_Matched:
  assumes "merge_once i g = Matched g' e"
  obtains cur n nb where "cell_at g i = Some cur" "cell_at g n = Some nb" "n \<noteq> i"
    "find_partner g cur (neighbor_positions i) = Some (n, nb)" "val nb = val cur"
    "g' = g[i := None, n := None]" "e = MatchEv i n"
proof -
  obtain cur n nb where cur: "cell_at g i = Some cur"
    and p: "find_partner g cur (neighbor_positions i) = Some (n, nb)"
    using assms by (auto simp: merge_once_def split: option.splits)
  with assms have "g' = g[i := None, n := None] \<and> e = MatchEv i n \<and> val nb = val cur"
    by (auto simp: merge_once_def Let_def is_match_def is_divide_def split: if_splits)
  with cur p partner_facts [OF p] that show ?thesis by blast
qed

lemma merge_once_Divided:
  assumes "merge_once i g = Divided g' e s"
  obtains cur n nb where "cell_at g i = Some cur" "cell_at g n = Some nb" "n \<noteq> i"
    "find_partner g cur (neighbor_positions i) = Some (n, nb)"
    "js_divides (max (val cur) (val nb)) (min (val cur) (val nb))"
    "val cur < val nb" "g' = g[i := None, n := Some (nb\<lparr>val := val nb div val cur\<rparr>)]"
    "e = DivideEv i n (val nb div val cur)" "s = n"
  | cur n nb where "cell_at g i = Some cur" "cell_at g n = Some nb" "n \<noteq> i"
    "find_partner g cur (neighbor_positions i) = Some (n, nb)"
    "js_divides (max (val cur) (val nb)) (min (val cur) (val nb))"
    "val nb < val cur" "g' = g[n := None, i := Some (cur\<lparr>val := val cur div val nb\<rparr>)]"
    "e = DivideEv n i (val cur div val nb)" "s = i"
proof -
  obtain cur n nb where cur: "cell_at g i = Some cur"
    and p: "find_partner g cur (neighbor_positions i) = Some (n, nb)"
    using assms by (auto simp: merge_once_def split: option.splits)
  have q: "is_match cur nb \<or> is_divide cur nb" and n: "cell_at g n = Some nb" "n \<noteq> i"
    using partner_facts [OF p] by simp_all
  show ?thesis
  proof (cases "val cur < val nb")
    case True
    with assms cur p q have "js_divides (max (val cur) (val nb)) (min (val cur) (val nb))
        \<and> g' = g[i := None, n := Some (nb\<lparr>val := val nb div val cur\<rparr>)]
        \<and> e = DivideEv i n (val nb div val cur) \<and> s = n"
      by (auto simp: merge_once_def Let_def is_match_def is_divide_def split: if_splits)
    with cur n p True that(1) show ?thesis by blast
  next
    case False
    with assms cur p q have "val nb < val cur \<and> js_divides (max (val cur) (val nb)) (min (val cur) (val nb))
        \<and> g' = g[n := None, i := Some (cur\<lparr>val := val cur div val nb\<rparr>)]
        \<and> e = DivideEv n i (val cur div val nb) \<and> s = i"
      by (auto simp: merge_once_def Let_def is_match_def is_divide_def split: if_splits)
    with cur n p that(2) show ?thesis by blast
  qed
qed

lemma check_merges_Settled:
  "merge_once i g = Settled \<Longrightarrow> check_merges i g = (g, [])"
  by (simp add: check_merges.simps [of i g])

lemma check_merges_Matched:
  "merge_once i g = Matched g' e \<Longrightarrow> check_merges i g = (g', [e])"
  by (simp add: check_merges.simps [of i g])

lemma check_merges_Divided:
  "merge_once i g = Divided g' e s \<Longrightarrow> check_merges i g = apsnd ((#) e) (check_merges s g')"
  by (simp add: check_merges.simps [of i g])

lemmas check_merges_step = check_merges_Settled check_merges_Matched check_merges_Divided

lemma check_merges_induct [case_names Settled Matched Divided]:
  assumes "\<And>i g. merge_once i g = Settled \<Longrightarrow> P i g"
    and "\<And>i g g' e. merge_once i g = Matched g' e \<Longrightarrow> P i g"
    and "\<And>i g g' e s. merge_once i g = Divided g' e s \<Longrightarrow> P s g' \<Longrightarrow> P i g"
  shows "P i g"
proof (induction i g rule: check_merges.induct)
  case (1 i g)
  show ?case
    by (cases "merge_once i g") (auto intro: assms "1.IH")
qed

lemma merge_once_length:
  "merge_once i g = Matched g' e \<Longrightarrow> length g' = length g"
  "merge_once i g = Divided g' e s \<Longrightarrow> length g' = length g"
  by (auto elim: merge_once_Matched merge_once_Divided)

lemma check_merges_length: "length (fst (check_merges i g)) = length g"
  by (induction i g rule: check_merges_induct) (auto simp: check_merges_step merge_once_length)

lemma merge_once_occupied:
  "merge_once i g = Matched g' e \<Longrightarrow> occupied g' + 2 = occupied g"
  "merge_once i g = Divided g' e s \<Longrightarrow> occupied g' + 1 = occupied g"
proof -
  assume "merge_once i g = Matched g' e"
  then show "occupied g' + 2 = occupied g"
  proof (rule merge_once_Matched)
    fix cur n nb
    assume c: "cell_at g i = Some cur" "cell_at g n = Some nb" "n \<noteq> i"
      and g': "g' = g[i := None, n := None]"
    have "cell_at (g[i := None]) n = Some nb" using c by (simp add: cell_at_update_other)
    then have "occupied g' + 1 = occupied (g[i := None])"
      unfolding g' by (rule occupied_clear)
    with occupied_clear [OF c(1)] show ?thesis by simp
  qed
next
  assume "merge_once i g = Divided g' e s"
  then show "occupied g' + 1 = occupied g"
  proof (cases rule: merge_once_Divided)
    case (1 cur n nb)
    then have "occupied g' = occupied (g[i := None])"
      by (simp add: occupied_replace cell_at_update_other)
    with occupied_clear [OF 1(1)] show ?thesis by simp
  next
    case (2 cur n nb)
    then have "occupied g' = occupied (g[n := None])"
      by (simp add: occupied_replace cell_at_update_other)
    with occupied_clear [OF 2(2)] show ?thesis by simp
  qed
qed

lemma check_merges_conservation:
  "occupied (fst (check_merges i g)) + sum_list (map removed_tiles (snd (check_merges i g)))
     = occupied g"
proof (induction i g rule: check_merges_induct)
  case (Settled i g)
  then show ?case by (simp add: check_merges_step)
next
  case (Matched i g g' e)
  have "removed_tiles e = 2"
    using Matched by (auto elim: merge_once_Matched simp: removed_tiles_def)
  with Matched merge_once_occupied(1) [OF Matched] show ?case
    by (simp add: check_merges_Matched)
next
  case (Divided i g g' e s)
  have "removed_tiles e = 1"
    using Divided(1) by (auto elim: merge_once_Divided simp: removed_tiles_def)
  with Divided merge_once_occupied(2) [OF Divided(1)] show ?case
    by (simp add: check_merges_Divided)
qed

lemma merge_once_survivor:
  "merge_once i g = Divided g' e s \<Longrightarrow> cell_at g' s \<noteq> None"
  by (auto elim!: merge_once_Divided simp: cell_at_update_other cell_at_update_same dest: cell_at_Some_less)

lemma check_merges_steps_bound:
  "cell_at g i \<noteq> None \<Longrightarrow> length (snd (check_merges i g)) < occupied g"
proof (induction i g rule: check_merges_induct)
  case (Settled i g)
  then obtain t where "cell_at g i = Some t" by blast
  from occupied_clear [OF this] show ?case
    using Settled by (simp add: check_merges_step)
next
  case (Matched i g g' e)
  then show ?case
    using merge_once_occupied(1) [OF Matched(1)] by (simp add: check_merges_step)
next
  case (Divided i g g' e s)
  then have "length (snd (check_merges s g')) < occupied g'"
    using merge_once_survivor by blast
  then show ?case
    using merge_once_occupied(2) [OF Divided(1)] Divided(1) by (simp add: check_merges_step)
qed

lemma tiles_ok_update:
  "tiles_ok g \<Longrightarrow> cell_ok c \<Longrightarrow> tiles_ok (g[i := c])"
  unfolding tiles_ok_def list_all_iff using set_update_subset_insert by fastforce

lemma tiles_ok_replicate_None: "tiles_ok (replicate n None)"
  by (simp add: tiles_ok_def list_all_iff cell_ok_def)

lemma merge_once_tiles_ok:
  assumes "tiles_ok g"
  shows "merge_once i g = Matched g' e \<Longrightarrow> tiles_ok g'"
    and "merge_once i g = Divided g' e s \<Longrightarrow> tiles_ok g'"
proof -
  assume "merge_once i g = Matched g' e"
  then show "tiles_ok g'"
    by (rule merge_once_Matched) (simp add: assms tiles_ok_update cell_ok_def)
next
  assume "merge_once i g = Divided g' e s"
  then show "tiles_ok g'"
  proof (cases rule: merge_once_Divided)
    case (1 cur n nb)
    then have "2 \<le> val nb div val cur"
      by (intro divide_quotient_ge2) simp_all
    with 1 assms show ?thesis by (simp add: tiles_ok_update cell_ok_def tile_ok_def)
  next
    case (2 cur n nb)
    then have "2 \<le> val cur div val nb"
      by (intro divide_quotient_ge2) simp_all
    with 2 assms show ?thesis by (simp add: tiles_ok_update cell_ok_def tile_ok_def)
  qed
qed

lemma check_merges_tiles_ok:
  "tiles_ok g \<Longrightarrow> tiles_ok (fst (check_merges i g))"
  by (induction i g rule: check_merges_induct)
    (auto simp: check_merges_step dest: merge_once_tiles_ok)

lemma check_merges_quotients:
  "list_all (\<lambda>e. case e of DivideEv a b q \<Rightarrow> 2 \<le> q | MatchEv a b \<Rightarrow> True)
     (snd (check_merges i g))"
proof (induction i g rule: check_merges_induct)
  case (Settled i g)
  then show ?case by (simp add: check_merges_step)
next
  case (Matched i g g' e)
  then show ?case by (auto elim!: merge_once_Matched simp: check_merges_step)
next
  case (Divided i g g' e s)
  from Divided(1) have "case e of DivideEv a b q \<Rightarrow> 2 \<le> q | MatchEv a b \<Rightarrow> True"
    by (cases rule: merge_once_Divided) (auto intro: divide_quotient_ge2)
  with Divided show ?case by (simp add: check_merges_step)
qed

subsection \<open>Properties of a whole cascade\<close>

text \<open>
  C5: resolution stops only at a settled cell: at the cell where the last
  activation ran (the survivor of the last divide, or the cleared cell of a
  match), no neighbour qualifies any more.
\<close>

lemma check_merges_stops_settled:
  "merge_once (stop_site i (snd (check_merges i g))) (fst (check_merges i g)) = Settled"
proof (induction i g rule: check_merges_induct)
  case (Settled i g)
  then show ?case by (simp add: check_merges_step)
next
  case (Matched i g g' e)
  then show ?case
  proof (rule merge_once_Matched)
    fix cur n nb
    assume "cell_at g i = Some cur" "n \<noteq> i" "g' = g[i := None, n := None]" "e = MatchEv i n"
    then have "cell_at g' i = None" "stop_site i [e] = i"
      by (simp_all add: cell_at_update_other cell_at_update_same cell_at_Some_less)
    with Matched show ?thesis
      by (simp add: check_merges_step merge_once_def)
  qed
next
  case (Divided i g g' e s)
  then show ?case
    by (auto elim!: merge_once_Divided simp: check_merges_step)
qed

text \<open>
  C1: on the 16-cell board a cascade started at an occupied cell takes at most
  15 resolution steps.
\<close>

lemma cascade_at_most_15_steps:
  assumes "length g = 16" and "cell_at g i \<noteq> None"
  shows "length (snd (check_merges i g)) \<le> 15"
  using check_merges_steps_bound [OF assms(2)] occupied_le_length [of g] assms(1) by simp

lemma cascade_at_most_15_steps_witness:
  "length (snd (check_merges 1 (empty_grid[5 := Some \<lparr>val = 8, tex = TileRed\<rparr>,
      9 := Some \<lparr>val = 4, tex = TileBlue\<rparr>, 1 := Some \<lparr>val = 2, tex = TilePink\<rparr>]))) \<le> 15"
  by (rule cascade_at_most_15_steps) (simp_all add: empty_grid_def cell_at_def)

text \<open>
  C2: placing a tile on an empty cell and resolving leaves one tile more than
  before when nothing merges, and otherwise never more tiles than before the
  placement.
\<close>

lemma placement_occupancy:
  assumes "cell_empty g i"
  shows "(if snd (check_merges i (g[i := Some t])) = []
          then occupied (fst (check_merges i (g[i := Some t]))) = occupied g + 1
          else occupied (fst (check_merges i (g[i := Some t]))) \<le> occupied g)"
proof -
  let ?r = "check_merges i (g[i := Some t])"
  have c: "occupied (fst ?r) + sum_list (map removed_tiles (snd ?r)) = occupied g + 1"
    using check_merges_conservation [of i "g[i := Some t]"] occupied_fill [OF assms] by simp
  have "snd ?r \<noteq> [] \<Longrightarrow> 1 \<le> sum_list (map removed_tiles (snd ?r))"
    by (cases "snd ?r") (auto simp: removed_tiles_def split: merge_event.splits)
  with c show ?thesis by auto
qed

lemma placement_occupancy_witness:
  "cell_empty (empty_grid[5 := Some \<lparr>val = 6, tex = TileRed\<rparr>]) 1 \<and>
   occupied (fst (check_merges 1 (empty_grid[5 := Some \<lparr>val = 6, tex = TileRed\<rparr>,
       1 := Some \<lparr>val = 3, tex = TileBlue\<rparr>]))) = 1"
proof -
  have e: "cell_empty (empty_grid[5 := Some \<lparr>val = 6, tex = TileRed\<rparr>]) 1"
    by code_simp
  from placement_occupancy [OF e, of "\<lparr>val = 3, tex = TileBlue\<rparr>"] e show ?thesis
    by code_simp
qed

text \<open>
  C3: when the first qualifying neighbour holds an equal value, both cells are
  cleared and the cascade ends with one match event.
\<close>

lemma match_resolution:
  assumes "cell_at g i = Some cur"
    and "find_partner g cur (neighbor_positions i) = Some (n, nb)"
    and "val nb = val cur"
  shows "check_merges i g = (g[i := None, n := None], [MatchEv i n])"
proof -
  have "merge_once i g = Matched (g[i := None, n := None]) (MatchEv i n)"
    using assms by (simp add: merge_once_def is_match_def)
  then show ?thesis by (rule check_merges_Matched)
qed

lemma match_resolution_witness:
  "check_merges 1 (empty_grid[5 := Some \<lparr>val = 5, tex = TileRed\<rparr>, 1 := Some \<lparr>val = 5, tex = TileBlue\<rparr>])
   = (empty_grid[5 := Some \<lparr>val = 5, tex = TileRed\<rparr>, 1 := Some \<lparr>val = 5, tex = TileBlue\<rparr>,
        1 := None, 5 := None], [MatchEv 1 5])"
proof -
  let ?g = "empty_grid[5 := Some \<lparr>val = 5, tex = TileRed\<rparr>, 1 := Some \<lparr>val = 5, tex = TileBlue\<rparr>]"
  have a: "cell_at ?g 1 = Some \<lparr>val = 5, tex = TileBlue\<rparr>"
    by code_simp
  have b: "find_partner ?g \<lparr>val = 5, tex = TileBlue\<rparr> (neighbor_positions 1)
      = Some (5, \<lparr>val = 5, tex = TileRed\<rparr>)"
    by code_simp
  show ?thesis using match_resolution [OF a b] by simp
qed

text \<open>
  C4: when the first qualifying neighbour holds a different value, the cell of
  the smaller value is cleared, the cell of the larger value keeps its colour
  and takes the quotient (at least 2), and resolution goes on from that cell.
\<close>

lemma divide_resolution:
  assumes "cell_at g i = Some cur"
    and "find_partner g cur (neighbor_positions i) = Some (n, nb)"
    and "val nb \<noteq> val cur"
  shows "(let removed = (if val cur < val nb then i else n);
              survivor = (if val cur < val nb then n else i);
              big = (if val cur < val nb then nb else cur);
              q = max (val cur) (val nb) div min (val cur) (val nb)
          in check_merges i g
               = apsnd ((#) (DivideEv removed survivor q))
                   (check_merges survivor (g[removed := None, survivor := Some (big\<lparr>val := q\<rparr>)]))
             \<and> 2 \<le> q)"
proof -
  have d: "js_divides (max (val cur) (val nb)) (min (val cur) (val nb))"
    using partner_facts [OF assms(2)] assms(3) by (auto simp: is_match_def is_divide_def)
  show ?thesis
  proof (cases "val cur < val nb")
    case True
    then have "merge_once i g = Divided (g[i := None, n := Some (nb\<lparr>val := val nb div val cur\<rparr>)])
        (DivideEv i n (val nb div val cur)) n"
      using assms d by (simp add: merge_once_def is_match_def is_divide_def js_divides_def Let_def)
    moreover have "2 \<le> val nb div val cur"
      using d True by (intro divide_quotient_ge2) simp_all
    ultimately show ?thesis
      using True by (simp add: check_merges_Divided)
  next
    case False
    then have lt: "val nb < val cur" using assms(3) by simp
    then have "merge_once i g = Divided (g[n := None, i := Some (cur\<lparr>val := val cur div val nb\<rparr>)])
        (DivideEv n i (val cur div val nb)) i"
      using assms d by (simp add: merge_once_def is_match_def is_divide_def js_divides_def Let_def)
    moreover have "2 \<le> val cur div val nb"
      using d lt by (intro divide_quotient_ge2) simp_all
    ultimately show ?thesis
      using False lt by (simp add: check_merges_Divided)
  qed
qed

lemma divide_resolution_witness:
  "check_merges 1 (empty_grid[5 := Some \<lparr>val = 6, tex = TileRed\<rparr>, 1 := Some \<lparr>val = 3, tex = TileBlue\<rparr>])
   = (empty_grid[5 := Some \<lparr>val = 2, tex = TileRed\<rparr>], [DivideEv 1 5 2])"
proof -
  let ?g = "empty_grid[5 := Some \<lparr>val = 6, tex = TileRed\<rparr>, 1 := Some \<lparr>val = 3, tex = TileBlue\<rparr>]"
  have a: "cell_at ?g 1 = Some \<lparr>val = 3, tex = TileBlue\<rparr>"
    by code_simp
  have b: "find_partner ?g \<lparr>val = 3, tex = TileBlue\<rparr> (neighbor_positions 1)
      = Some (5, \<lparr>val = 6, tex = TileRed\<rparr>)"
    by code_simp
  have c: "val \<lparr>val = 6, tex = TileRed\<rparr> \<noteq> val \<lparr>val = 3, tex = TileBlue\<rparr>"
    by simp
  from divide_resolution [OF a b c] show ?thesis
    by code_simp
qed

text \<open>
  C6: resolution keeps every tile value at least 2 (the values the factory
  draws), and every quotient it writes is at least 2.
\<close>

lemma cascade_values_at_least_two:
  assumes "tiles_ok g"
  shows "tiles_ok (fst (check_merges i g)) \<and>
         list_all (\<lambda>e. case e of DivideEv a b q \<Rightarrow> 2 \<le> q | MatchEv a b \<Rightarrow> True)
           (snd (check_merges i g))"
  using check_merges_tiles_ok [OF assms] check_merges_quotients by blast

lemma cascade_values_at_least_two_witness:
  "tiles_ok (fst (check_merges 1 (empty_grid[5 := Some \<lparr>val = 6, tex = TileRed\<rparr>,
     1 := Some \<lparr>val = 3, tex = TileBlue\<rparr>])))"
proof -
  have "tiles_ok (empty_grid[5 := Some \<lparr>val = 6, tex = TileRed\<rparr>, 1 := Some \<lparr>val = 3, tex = TileBlue\<rparr>])"
    by code_simp
  from cascade_values_at_least_two [OF this, of 1] show ?thesis by simp
qed

end
