(* ===== verification/Session.thy ===== *)
theory Session
  imports Merge
begin

text \<open>
  GameSession, ScoreLevelController and UndoManager: the global state of
  src/main.js (lines 70--82) as the record \<open>session\<close>, and one definition per
  function that changes it.  Phaser tweens run their \<open>onComplete\<close> callbacks
  later; the callbacks that change the game state (the end of a match or
  divide animation, the end of the trash animation) are queued in
  \<open>pending\<close> and run by \<open>fire_callback\<close>, so that an input arriving before
  an animation ends is an explicit interleaving.  The audio state and the
  sound effects played (as the trace \<open>sfx\<close>), the start popup's PLAY
  listener and its fade-out callback, and the game-over panel's RESTART button
  are part of the session; rendering and the hint drawing only read the state
  and are not modelled.
\<close>

datatype callback =
    CbMatchDone     \<comment> \<open>lines 507--514: \<open>addScore(10); isMerging = false\<close>\<close>
  | CbDivideDone    \<comment> \<open>lines 526--530 and 540--544: \<open>isMerging = false\<close>\<close>
  | CbTrashDone     \<comment> \<open>lines 427--430: \<open>spawnNextTile(scene)\<close>\<close>
  | CbStartGame     \<comment> \<open>lines 226--233: the start popup has faded: \<open>startNewGame(scene)\<close>\<close>

text \<open>The sound effects \<open>setupAudio\<close> loads (lines 238--248), by key.\<close>

datatype sound = SndDrag | SndDrop | SndKeep | SndMerge | SndGameOver | SndRestart | SndUndo | SndClick

text \<open>The object \<open>saveState\<close> pushes (lines 742--751).\<close>

record snapshot =
  snap_grid :: grid
  snap_queue :: "tile list"
  snap_score :: nat
  snap_level :: nat
  snap_trash :: nat
  snap_keep :: "tile option"
  snap_hand :: "tile option"
  snap_game_over :: bool

text \<open>
  The globals of lines 70--82; \<open>hand\<close> is the tile of \<open>currentDraggable\<close>,
  \<open>saved_best\<close> the value under \<open>justDivide_bestScore\<close> in
  \<open>localStorage\<close>, \<open>rng\<close> the remaining \<open>Math.random()\<close> draws.
  \<open>bgm_playing\<close> and \<open>bgm_muted\<close> are the state of the looping music
  \<open>bgm\<close>, \<open>sfx\<close> the sound effects played so far, oldest first,
  \<open>start_armed\<close> whether the PLAY button's \<open>once\<close> listener has yet to
  fire, and \<open>game_over_ui\<close> whether \<open>gameOverContainer\<close> exists.
\<close>

record session =
  grid :: grid
  queue :: "tile list"
  undo_stack :: "snapshot list"
  score :: nat
  best_score :: nat
  saved_best :: nat
  level :: nat
  trash_count :: nat
  keep_tile :: "tile option"
  hints_active :: bool
  difficulty :: nat
  is_game_over :: bool
  is_merging :: bool
  hand :: "tile option"
  pending :: "callback list"
  rng :: rng
  is_muted :: bool
  bgm_playing :: bool
  bgm_muted :: bool
  sfx :: "sound list"
  start_armed :: bool
  game_over_ui :: bool

definition init_session :: "nat \<Rightarrow> rng \<Rightarrow> session" where
  "init_session stored r =
     \<lparr>grid = replicate 16 None, queue = [], undo_stack = [], score = 0, best_score = 0,
      saved_best = stored, level = 1, trash_count = 10, keep_tile = None,
      hints_active = False, difficulty = 1, is_game_over = False, is_merging = False,
      hand = None, pending = [], rng = r, is_muted = False, bgm_playing = False,
      bgm_muted = False, sfx = [], start_armed = True, game_over_ui = False\<rparr>"

text \<open>\<open>playSound(key)\<close> (lines 250--252): every key is loaded, and the effect
  plays whether or not \<open>isMuted\<close> is set.\<close>

definition play_sound :: "sound \<Rightarrow> session \<Rightarrow> session" where
  "play_sound k s = s\<lparr>sfx := sfx s @ [k]\<rparr>"

subsection \<open>Score, level, game over\<close>

definition add_score :: "nat \<Rightarrow> session \<Rightarrow> session" where
  "add_score points s =
     (let s1 = s\<lparr>score := score s + points\<rparr>
      in if score s1 > best_score s1
         then s1\<lparr>best_score := score s1, saved_best := score s1\<rparr>
         else s1)"

definition check_level_up :: "session \<Rightarrow> session" where
  "check_level_up s =
     (let calculated = score s div 10 + 1
      in if calculated > level s
         then s\<lparr>level := calculated,
                trash_count := min 10 (trash_count s + 1 * (calculated - level s))\<rparr>
         else s)"

definition trigger_game_over :: "session \<Rightarrow> session" where
  "trigger_game_over s =
     (if is_game_over s then s
      else play_sound SndGameOver (s\<lparr>is_game_over := True, bgm_playing := False\<rparr>))"

definition check_game_over :: "session \<Rightarrow> session" where
  "check_game_over s =
     (if is_merging s then s
      else if list_ex (cell_empty (grid s)) [0..<16] then s
      else trigger_game_over s)"

subsection \<open>Queue and hand\<close>

definition replenish_queue :: "session \<Rightarrow> session" where
  "replenish_queue s =
     (case replenish_loop (max_val (difficulty s) (level s)) (queue s) (rng s) of
        (q, r) \<Rightarrow> s\<lparr>queue := q, rng := r\<rparr>)"

text \<open>
  \<open>queue.shift()\<close> on an empty queue would leave \<open>data\<close> undefined and the
  next line would throw; \<open>replenish_queue\<close> always leaves five tiles, so that
  branch is dead (\<open>replenish_queue_length\<close>).
\<close>

definition spawn_next_tile :: "session \<Rightarrow> session" where
  "spawn_next_tile s =
     (let s1 = replenish_queue s
      in case queue s1 of
           [] \<Rightarrow> s1
         | t # q \<Rightarrow> check_game_over (s1\<lparr>queue := q, hand := Some t\<rparr>))"

subsection \<open>Placing a tile and resolving merges\<close>

text \<open>
  The session effects of one event of \<open>checkMerges\<close>: \<open>isMerging = true\<close>,
  the tween callback, and for a divide the immediate \<open>addScore(20)\<close>.
\<close>

definition apply_merge_event :: "merge_event \<Rightarrow> session \<Rightarrow> session" where
  "apply_merge_event e s =
     (case e of
        MatchEv a b \<Rightarrow>
          play_sound SndMerge (s\<lparr>is_merging := True, pending := pending s @ [CbMatchDone]\<rparr>)
      | DivideEv a b q \<Rightarrow>
          add_score 20
            (play_sound SndMerge (s\<lparr>is_merging := True, pending := pending s @ [CbDivideDone]\<rparr>)))"

definition check_merges_session :: "nat \<Rightarrow> session \<Rightarrow> session" where
  "check_merges_session index s =
     (case check_merges index (grid s) of
        (g, evs) \<Rightarrow> fold apply_merge_event evs (s\<lparr>grid := g\<rparr>))"

definition create_grid_tile :: "nat \<Rightarrow> tile \<Rightarrow> session \<Rightarrow> session" where
  "create_grid_tile index t s =
     check_level_up (check_merges_session index
       ((play_sound SndDrop s)\<lparr>grid := (grid s)[index := Some t]\<rparr>))"

text \<open>
  Where a tile is dropped: on the trash (within 80 px of it), on the keep slot
  (within 60 px), on a board slot (within 60 px of its centre; slots are 125 px
  apart, so at most one), or elsewhere.  The regions are disjoint, so the
  order of the tests in the \<open>dragend\<close> handler does not matter.
\<close>

datatype drop_target = OnTrash | OnKeep | OnCell nat | OffBoard

datatype dragged = HandTile | KeepTile

definition is_valid_drop :: "tile \<Rightarrow> drop_target \<Rightarrow> session \<Rightarrow> bool" where
  "is_valid_drop t target s =
     (val t \<noteq> 0 \<and> (case target of OnCell i \<Rightarrow> i < 16 \<and> cell_empty (grid s) i | _ \<Rightarrow> False))"

definition try_drop_on_grid :: "tile \<Rightarrow> drop_target \<Rightarrow> session \<Rightarrow> session option" where
  "try_drop_on_grid t target s =
     (if val t = 0 then None
      else case target of
             OnCell i \<Rightarrow>
               if i < 16 \<and> cell_empty (grid s) i then Some (create_grid_tile i t s) else None
           | _ \<Rightarrow> None)"

subsection \<open>Undo history\<close>

definition snapshot_of :: "session \<Rightarrow> snapshot" where
  "snapshot_of s =
     \<lparr>snap_grid = grid s, snap_queue = queue s, snap_score = score s, snap_level = level s,
      snap_trash = trash_count s, snap_keep = keep_tile s, snap_hand = hand s,
      snap_game_over = is_game_over s\<rparr>"

definition save_state :: "session \<Rightarrow> session" where
  "save_state s =
     s\<lparr>undo_stack := (if length (undo_stack s) \<ge> 10 then tl (undo_stack s) else undo_stack s)
                      @ [snapshot_of s]\<rparr>"

definition restore_grid :: "grid \<Rightarrow> grid" where
  "restore_grid sg =
     fold (\<lambda>(i, c) g. case c of None \<Rightarrow> g | Some t \<Rightarrow> g[i := Some t])
       (enumerate 0 sg) (replicate 16 None)"

text \<open>
  \<open>undo\<close> clears the game-over flag when it is set (lines 761--766) and
  restores every field of the snapshot but its \<open>isGameOver\<close>, which it never
  reads.
\<close>

definition undo :: "session \<Rightarrow> session" where
  "undo s =
     (if undo_stack s = [] then s
      else let st = last (undo_stack s);
               s1 = play_sound SndUndo s;
               s2 = (if is_game_over s1 \<and> game_over_ui s1
                     then s1\<lparr>is_game_over := False, bgm_playing := True\<rparr> else s1)
           in s2\<lparr>undo_stack := butlast (undo_stack s2),
                score := snap_score st, level := snap_level st, trash_count := snap_trash st,
                keep_tile := snap_keep st, queue := snap_queue st,
                grid := restore_grid (snap_grid st), hand := snap_hand st\<rparr>)"

subsection \<open>The drag handlers\<close>

definition handle_keep_drag_end :: "drop_target \<Rightarrow> session \<Rightarrow> session" where
  "handle_keep_drag_end target s =
     (case keep_tile s of
        None \<Rightarrow> s
      | Some k \<Rightarrow>
          if is_valid_drop k target s
          then (let s1 = save_state s
                in case try_drop_on_grid k target s1 of
                     Some s2 \<Rightarrow> s2\<lparr>keep_tile := None\<rparr>
                   | None \<Rightarrow> s1\<lparr>undo_stack := butlast (undo_stack s1)\<rparr>)
          else s)"

definition handle_trash_drop :: "session \<Rightarrow> session" where
  "handle_trash_drop s =
     (if trash_count s > 0
      then (let s1 = play_sound SndDrop (save_state s)
            in s1\<lparr>trash_count := trash_count s1 - 1, pending := pending s1 @ [CbTrashDone]\<rparr>)
      else s)"

definition handle_hand_to_keep :: "tile \<Rightarrow> session \<Rightarrow> session" where
  "handle_hand_to_keep h s =
     play_sound SndKeep
       (case keep_tile s of
          None \<Rightarrow> spawn_next_tile (s\<lparr>keep_tile := Some h\<rparr>)
        | Some k \<Rightarrow> check_game_over (s\<lparr>keep_tile := Some h, hand := Some k\<rparr>))"

definition drag_end :: "dragged \<Rightarrow> drop_target \<Rightarrow> session \<Rightarrow> session" where
  "drag_end obj target s =
     (if is_game_over s then s
      else case obj of
        KeepTile \<Rightarrow> handle_keep_drag_end target s
      | HandTile \<Rightarrow>
          (case hand s of
             None \<Rightarrow> s
           | Some h \<Rightarrow>
               if target = OnTrash then handle_trash_drop s
               else if target = OnKeep then handle_hand_to_keep h (save_state s)
               else if is_valid_drop h target s
               then (let s1 = save_state s
                     in case try_drop_on_grid h target s1 of
                          Some s2 \<Rightarrow> spawn_next_tile s2
                        | None \<Rightarrow> s1\<lparr>undo_stack := butlast (undo_stack s1)\<rparr>)
               else check_game_over s))"

subsection \<open>New game, settings, animations\<close>

definition start_new_game :: "session \<Rightarrow> session" where
  "start_new_game s =
     (let s0 = play_sound SndRestart s
      in spawn_next_tile (replenish_queue
           (s0\<lparr>best_score := saved_best s0, grid := replicate 16 None, undo_stack := [], queue := [],
               score := 0, level := 1, trash_count := 10, keep_tile := None,
               hints_active := False, is_game_over := False, is_merging := False,
               game_over_ui := True, bgm_playing := True, bgm_muted := is_muted s0\<rparr>)))"

definition set_difficulty :: "nat \<Rightarrow> session \<Rightarrow> session" where
  "set_difficulty d s = play_sound SndClick (s\<lparr>difficulty := d\<rparr>)"

definition toggle_hints :: "session \<Rightarrow> session" where
  "toggle_hints s = play_sound SndClick (s\<lparr>hints_active := \<not> hints_active s\<rparr>)"

text \<open>\<open>toggleSoundGlobal\<close> (lines 254--271): it flips \<open>isMuted\<close> and mutes
  or unmutes the music only.\<close>

definition toggle_sound :: "session \<Rightarrow> session" where
  "toggle_sound s =
     play_sound SndClick (s\<lparr>is_muted := \<not> is_muted s, bgm_muted := \<not> is_muted s\<rparr>)"

text \<open>The \<open>dragstart\<close> listener (lines 126--130).\<close>

definition drag_start :: "session \<Rightarrow> session" where
  "drag_start s = (if \<not> is_game_over s \<and> hand s \<noteq> None then play_sound SndDrag s else s)"

text \<open>
  The PLAY button of the start popup (lines 223--235): its listener is
  registered with \<open>once\<close>, plays the click and starts the 300 ms fade whose
  completion starts the game.
\<close>

definition click_play :: "session \<Rightarrow> session" where
  "click_play s =
     (if start_armed s
      then (play_sound SndClick s)\<lparr>start_armed := False, pending := pending s @ [CbStartGame]\<rparr>
      else s)"

text \<open>
  The RESTART button of the game-over panel (line 1015); the panel is visible,
  and so receives the pointer, only while the game is over.
\<close>

definition click_restart :: "session \<Rightarrow> session" where
  "click_restart s = (if is_game_over s \<and> game_over_ui s then start_new_game s else s)"

text \<open>
  The \<open>onComplete\<close> callbacks of the trash tween (lines 427--430) and of the
  start popup's fade (lines 229--233); destroying the sprite is presentation.
\<close>

definition trash_tween_done :: "session \<Rightarrow> session" where
  "trash_tween_done s = spawn_next_tile s"

definition start_fade_done :: "session \<Rightarrow> session" where
  "start_fade_done s = start_new_game s"

text \<open>The callback a completing tween runs; the merge callbacks are lines 507--544.\<close>

definition run_callback :: "callback \<Rightarrow> session \<Rightarrow> session" where
  "run_callback cb s =
     (case cb of
        CbMatchDone \<Rightarrow> (add_score 10 s)\<lparr>is_merging := False\<rparr>
      | CbDivideDone \<Rightarrow> s\<lparr>is_merging := False\<rparr>
      | CbTrashDone \<Rightarrow> trash_tween_done s
      | CbStartGame \<Rightarrow> start_fade_done s)"

definition fire_callback :: "session \<Rightarrow> session" where
  "fire_callback s =
     (case pending s of [] \<Rightarrow> s | cb # cbs \<Rightarrow> run_callback cb (s\<lparr>pending := cbs\<rparr>))"

definition settle :: "session \<Rightarrow> session" where
  "settle s = (fire_callback ^^ length (pending s)) s"

text \<open>The inputs the scene listens to (lines 126--182, 223--235, 871, 1015).\<close>

datatype input =
    DragStart | DragEnd dragged drop_target
  | KeyZ | KeyR | KeyG | KeyM | KeyOne | KeyTwo | KeyThree
  | PlayClick | SpeakerClick | RestartClick | TweenDone

definition handle_input :: "input \<Rightarrow> session \<Rightarrow> session" where
  "handle_input i s =
     (case i of
        DragStart \<Rightarrow> drag_start s
      | DragEnd obj target \<Rightarrow> drag_end obj target s
      | KeyZ \<Rightarrow> undo s
      | KeyR \<Rightarrow> start_new_game s
      | KeyG \<Rightarrow> toggle_hints s
      | KeyM \<Rightarrow> toggle_sound s
      | KeyOne \<Rightarrow> set_difficulty 1 s
      | KeyTwo \<Rightarrow> set_difficulty 2 s
      | KeyThree \<Rightarrow> set_difficulty 3 s
      | PlayClick \<Rightarrow> click_play s
      | SpeakerClick \<Rightarrow> toggle_sound s
      | RestartClick \<Rightarrow> click_restart s
      | TweenDone \<Rightarrow> fire_callback s)"

subsection \<open>The session invariant\<close>

text \<open>
  What every reachable state keeps: the board has 16 cells, every tile has a
  value of at least 2, the trash allowance is at most 10, the history holds at
  most 10 snapshots each of which satisfied the same bounds when it was taken,
  the level is at least 1 and never ahead of \<open>floor(score / 10) + 1\<close>, the
  score never exceeds the best score, which never exceeds the stored one, the
  random supply is valid, and \<open>isMerging\<close> is set only while a merge
  animation is pending.
\<close>

definition is_merge_callback :: "callback \<Rightarrow> bool" where
  "is_merge_callback cb = (cb = CbMatchDone \<or> cb = CbDivideDone)"

definition snapshot_ok :: "nat \<Rightarrow> snapshot \<Rightarrow> bool" where
  "snapshot_ok best st =
     (length (snap_grid st) = 16 \<and> tiles_ok (snap_grid st) \<and> list_all tile_ok (snap_queue st)
      \<and> cell_ok (snap_keep st) \<and> cell_ok (snap_hand st) \<and> snap_trash st \<le> 10
      \<and> 1 \<le> snap_level st \<and> snap_level st \<le> snap_score st div 10 + 1
      \<and> snap_score st \<le> best \<and> \<not> snap_game_over st)"

definition session_inv :: "session \<Rightarrow> bool" where
  "session_inv s =
     (length (grid s) = 16 \<and> tiles_ok (grid s) \<and> list_all tile_ok (queue s)
      \<and> cell_ok (keep_tile s) \<and> cell_ok (hand s) \<and> trash_count s \<le> 10
      \<and> 1 \<le> level s \<and> level s \<le> score s div 10 + 1
      \<and> score s \<le> best_score s \<and> best_score s \<le> saved_best s
      \<and> length (undo_stack s) \<le> 10 \<and> list_all (snapshot_ok (best_score s)) (undo_stack s)
      \<and> valid_rng (rng s)
      \<and> (if is_merging s then list_ex is_merge_callback (pending s) else True))"

inductive reachable :: "session \<Rightarrow> bool" where
  init: "valid_rng r \<Longrightarrow> reachable (init_session stored r)"
| step: "reachable s \<Longrightarrow> reachable (handle_input i s)"

subsection \<open>Every handler keeps the invariant\<close>

declare play_sound_def [simp] trash_tween_done_def [simp] start_fade_done_def [simp]

lemma session_inv_sfx [simp]: "session_inv (s\<lparr>sfx := x\<rparr>) = session_inv s"
  by (simp add: session_inv_def)

lemma snapshot_ok_mono: "snapshot_ok b st \<Longrightarrow> b \<le> b' \<Longrightarrow> snapshot_ok b' st"
  by (simp add: snapshot_ok_def)

lemma snapshots_ok_mono:
  "list_all (snapshot_ok b) sts \<Longrightarrow> b \<le> b' \<Longrightarrow> list_all (snapshot_ok b') sts"
  by (auto simp: list_all_iff intro: snapshot_ok_mono)

lemma add_score_inv:
  assumes inv: "session_inv s"
  shows "session_inv (add_score p s)"
proof -
  have lv: "level s \<le> (score s + p) div 10 + 1"
    using inv div_le_mono [of "score s" "score s + p" 10] by (simp add: session_inv_def)
  show ?thesis
  proof (cases "best_score s < score s + p")
    case True
    then have "list_all (snapshot_ok (score s + p)) (undo_stack s)"
      using inv by (auto simp: session_inv_def intro: snapshots_ok_mono)
    with True inv lv show ?thesis by (simp add: session_inv_def add_score_def Let_def)
  next
    case False
    with inv lv show ?thesis by (simp add: session_inv_def add_score_def Let_def)
  qed
qed

lemma check_level_up_inv: "session_inv s \<Longrightarrow> session_inv (check_level_up s)"
  by (auto simp: session_inv_def check_level_up_def Let_def)

lemma check_game_over_inv: "session_inv s \<Longrightarrow> session_inv (check_game_over s)"
  by (simp add: session_inv_def check_game_over_def trigger_game_over_def)

lemma replenish_queue_inv:
  assumes inv: "session_inv s"
  shows "session_inv (replenish_queue s)"
proof -
  let ?m = "max_val (difficulty s) (level s)"
  obtain q r where loop: "replenish_loop ?m (queue s) (rng s) = (q, r)"
    by (cases "replenish_loop ?m (queue s) (rng s)")
  have vr: "valid_rng (rng s)" and q0: "\<forall>t \<in> set (queue s). tile_ok t"
    using inv by (simp_all add: session_inv_def list_all_iff)
  have "\<forall>j. tile_ok (gen_tile ?m (shift_rng j (rng s)))"
    using gen_tile_ok valid_rng_shift [OF vr] by blast
  from replenish_loop_tiles [OF q0 this] loop have "list_all tile_ok q"
    by (simp add: list_all_iff)
  moreover obtain k where "r = shift_rng k (rng s)"
    using replenish_loop_rng [of ?m "queue s" "rng s"] loop by auto
  then have "valid_rng r" using vr by blast
  ultimately show ?thesis
    using inv loop by (simp add: session_inv_def replenish_queue_def)
qed

lemma replenish_queue_length: "5 \<le> length (queue (replenish_queue s))"
proof -
  obtain q r where loop: "replenish_loop (max_val (difficulty s) (level s)) (queue s) (rng s) = (q, r)"
    by (cases "replenish_loop (max_val (difficulty s) (level s)) (queue s) (rng s)")
  from replenish_loop_length [of "max_val (difficulty s) (level s)" "queue s" "rng s"] loop
  show ?thesis by (simp add: replenish_queue_def)
qed

lemma spawn_next_tile_inv: "session_inv s \<Longrightarrow> session_inv (spawn_next_tile s)"
proof -
  assume "session_inv s"
  then have inv: "session_inv (replenish_queue s)" by (rule replenish_queue_inv)
  show ?thesis
  proof (cases "queue (replenish_queue s)")
    case Nil
    with inv show ?thesis by (simp add: spawn_next_tile_def)
  next
    case (Cons t q)
    with inv have "session_inv ((replenish_queue s)\<lparr>queue := q, hand := Some t\<rparr>)"
      by (simp add: session_inv_def cell_ok_def)
    with Cons show ?thesis
      by (simp add: spawn_next_tile_def check_game_over_inv)
  qed
qed

lemma apply_merge_event_inv: "session_inv s \<Longrightarrow> session_inv (apply_merge_event e s)"
proof -
  assume inv: "session_inv s"
  show ?thesis
  proof (cases e)
    case (MatchEv a b)
    with inv show ?thesis
      by (simp add: apply_merge_event_def session_inv_def is_merge_callback_def list_ex_iff)
  next
    case (DivideEv a b q)
    with inv have "session_inv (s\<lparr>is_merging := True, pending := pending s @ [CbDivideDone]\<rparr>)"
      by (simp add: session_inv_def is_merge_callback_def list_ex_iff)
    with DivideEv show ?thesis
      by (simp add: apply_merge_event_def add_score_inv)
  qed
qed

lemma fold_apply_merge_event_inv:
  "session_inv s \<Longrightarrow> session_inv (fold apply_merge_event evs s)"
  by (induction evs arbitrary: s) (simp_all add: apply_merge_event_inv)

lemma check_merges_session_inv:
  assumes "session_inv s"
  shows "session_inv (check_merges_session i s)"
proof -
  obtain g evs where r: "check_merges i (grid s) = (g, evs)"
    by (cases "check_merges i (grid s)")
  have "length g = 16" "tiles_ok g"
    using check_merges_length [of i "grid s"] check_merges_tiles_ok [of "grid s" i] assms r
    by (simp_all add: session_inv_def)
  with assms have "session_inv (s\<lparr>grid := g\<rparr>)"
    by (simp add: session_inv_def)
  then show ?thesis
    using r by (simp add: check_merges_session_def fold_apply_merge_event_inv)
qed

lemma create_grid_tile_inv:
  assumes "session_inv s" and "tile_ok t"
  shows "session_inv (create_grid_tile i t s)"
proof -
  have "session_inv (s\<lparr>sfx := sfx s @ [SndDrop], grid := (grid s)[i := Some t]\<rparr>)"
    using assms by (simp add: session_inv_def tiles_ok_update cell_ok_def)
  then show ?thesis
    by (simp add: create_grid_tile_def check_merges_session_inv check_level_up_inv)
qed

text \<open>The loop of lines 775--777 rebuilds a 16-cell snapshot exactly.\<close>

lemma restore_fold:
  "fold (\<lambda>(i, c) g. case c of None \<Rightarrow> g | Some t \<Rightarrow> g[i := Some t])
     (enumerate (length ys) xs) (ys @ replicate (length xs) None) = ys @ xs"
proof (induction xs arbitrary: ys)
  case Nil
  then show ?case by simp
next
  case (Cons x xs)
  have step: "(case x of None \<Rightarrow> ys @ None # replicate (length xs) None
               | Some t \<Rightarrow> (ys @ None # replicate (length xs) None)[length ys := Some t])
             = ys @ x # replicate (length xs) None"
    by (cases x) (simp_all add: list_update_append)
  from Cons.IH [of "ys @ [x]"] show ?case
    by (simp add: step)
qed

lemma restore_grid_id: "length sg = 16 \<Longrightarrow> restore_grid sg = sg"
  using restore_fold [of "[]" sg] by (simp add: restore_grid_def)

lemma save_state_inv:
  assumes inv: "session_inv s" and ngo: "\<not> is_game_over s"
  shows "session_inv (save_state s)"
proof -
  have snap: "snapshot_ok (best_score s) (snapshot_of s)"
    using inv ngo unfolding session_inv_def snapshot_ok_def snapshot_of_def by simp
  have len: "length ((if length (undo_stack s) \<ge> 10 then tl (undo_stack s) else undo_stack s)
               @ [snapshot_of s]) \<le> 10"
    using inv unfolding session_inv_def by auto
  have "list_all (snapshot_ok (best_score s))
          (if length (undo_stack s) \<ge> 10 then tl (undo_stack s) else undo_stack s)"
  proof -
    have "list_all (snapshot_ok (best_score s)) (undo_stack s)"
      using inv by (simp add: session_inv_def)
    then show ?thesis by (cases "undo_stack s") simp_all
  qed
  with snap len inv show ?thesis
    by (simp add: session_inv_def save_state_def)
qed

lemma butlast_undo_inv:
  "session_inv s \<Longrightarrow> session_inv (s\<lparr>undo_stack := butlast (undo_stack s)\<rparr>)"
  by (auto simp: session_inv_def list_all_iff dest: in_set_butlastD)

lemma undo_inv:
  assumes inv: "session_inv s"
  shows "session_inv (undo s)"
proof (cases "undo_stack s = []")
  case True
  with inv show ?thesis by (simp add: undo_def)
next
  case False
  let ?st = "last (undo_stack s)"
  have "snapshot_ok (best_score s) ?st"
    using inv False by (simp add: session_inv_def list_all_iff)
  moreover have "list_all (snapshot_ok (best_score s)) (butlast (undo_stack s))"
    using inv by (auto simp: session_inv_def list_all_iff dest: in_set_butlastD)
  ultimately show ?thesis
    using inv False by (auto simp: undo_def Let_def session_inv_def snapshot_ok_def restore_grid_id)
qed

lemma try_drop_on_grid_inv:
  assumes "session_inv s" and "tile_ok t" and "try_drop_on_grid t target s = Some s'"
  shows "session_inv s'"
  using assms by (auto simp: try_drop_on_grid_def create_grid_tile_inv
      split: drop_target.splits if_splits)

lemma handle_keep_drag_end_inv:
  assumes inv: "session_inv s" and ngo: "\<not> is_game_over s"
  shows "session_inv (handle_keep_drag_end target s)"
proof (cases "keep_tile s")
  case None
  with inv show ?thesis by (simp add: handle_keep_drag_end_def)
next
  case (Some k)
  have k: "tile_ok k" using inv Some by (simp add: session_inv_def cell_ok_def)
  have s1: "session_inv (save_state s)" using inv ngo by (rule save_state_inv)
  show ?thesis
  proof (cases "try_drop_on_grid k target (save_state s)")
    case None
    with Some s1 inv show ?thesis
      by (simp add: handle_keep_drag_end_def butlast_undo_inv Let_def)
  next
    case (Some s2)
    with s1 k have "session_inv s2" by (rule try_drop_on_grid_inv)
    then have "session_inv (s2\<lparr>keep_tile := None\<rparr>)"
      by (simp add: session_inv_def cell_ok_def)
    with Some \<open>keep_tile s = Some k\<close> inv show ?thesis
      by (simp add: handle_keep_drag_end_def Let_def)
  qed
qed

lemma handle_trash_drop_inv:
  assumes inv: "session_inv s" and ngo: "\<not> is_game_over s"
  shows "session_inv (handle_trash_drop s)"
proof (cases "0 < trash_count s")
  case True
  have "session_inv (save_state s)" using inv ngo by (rule save_state_inv)
  then have "session_inv ((save_state s)\<lparr>sfx := sfx (save_state s) @ [SndDrop],
      trash_count := trash_count (save_state s) - 1, pending := pending (save_state s) @ [CbTrashDone]\<rparr>)"
    unfolding session_inv_def by auto
  with True show ?thesis by (simp add: handle_trash_drop_def Let_def)
next
  case False
  with inv show ?thesis by (simp add: handle_trash_drop_def)
qed

lemma handle_hand_to_keep_inv:
  assumes inv: "session_inv s" and h: "tile_ok h"
  shows "session_inv (handle_hand_to_keep h s)"
proof (cases "keep_tile s")
  case None
  with inv h have "session_inv (s\<lparr>keep_tile := Some h\<rparr>)"
    by (simp add: session_inv_def cell_ok_def)
  with None show ?thesis by (simp add: handle_hand_to_keep_def spawn_next_tile_inv)
next
  case (Some k)
  with inv h have "session_inv (s\<lparr>keep_tile := Some h, hand := Some k\<rparr>)"
    by (simp add: session_inv_def cell_ok_def)
  with Some show ?thesis by (simp add: handle_hand_to_keep_def check_game_over_inv)
qed

lemma drag_end_inv:
  assumes inv: "session_inv s"
  shows "session_inv (drag_end obj target s)"
proof (cases "is_game_over s")
  case True
  with inv show ?thesis by (simp add: drag_end_def)
next
  case ngo: False
  show ?thesis
  proof (cases obj)
    case KeepTile
    with inv ngo show ?thesis by (simp add: drag_end_def handle_keep_drag_end_inv)
  next
    case HandTile
    show ?thesis
    proof (cases "hand s")
      case None
      with inv HandTile show ?thesis by (simp add: drag_end_def)
    next
      case (Some h)
      have h: "tile_ok h" using inv Some by (simp add: session_inv_def cell_ok_def)
      have s1: "session_inv (save_state s)" using inv ngo by (rule save_state_inv)
      have drop: "session_inv (case try_drop_on_grid h target (save_state s) of
                     Some s2 \<Rightarrow> spawn_next_tile s2
                   | None \<Rightarrow> (save_state s)\<lparr>undo_stack := butlast (undo_stack (save_state s))\<rparr>)"
        using s1 h by (auto split: option.splits intro: spawn_next_tile_inv butlast_undo_inv
            try_drop_on_grid_inv)
      show ?thesis
        using HandTile Some ngo inv s1 h drop
        by (simp add: drag_end_def handle_trash_drop_inv handle_hand_to_keep_inv
            check_game_over_inv Let_def)
    qed
  qed
qed

lemma start_new_game_inv:
  assumes inv: "session_inv s"
  shows "session_inv (start_new_game s)"
  unfolding start_new_game_def Let_def
  by (intro spawn_next_tile_inv replenish_queue_inv)
     (use inv in \<open>auto simp: session_inv_def tiles_ok_replicate_None cell_ok_def\<close>)

text \<open>
  The end of a match animation: its \<open>addScore(10)\<close> commutes with clearing
  \<open>isMerging\<close>, and the cleared flag makes the last clause of the invariant
  hold whatever is still pending.
\<close>

lemma fire_callback_inv:
  assumes inv: "session_inv s"
  shows "session_inv (fire_callback s)"
proof (cases "pending s")
  case Nil
  with inv show ?thesis by (simp add: fire_callback_def)
next
  case (Cons cb cbs)
  have quiet: "session_inv (s\<lparr>pending := cbs, is_merging := False\<rparr>)"
    using inv unfolding session_inv_def by auto
  show ?thesis
  proof (cases cb)
    case CbMatchDone
    have "(add_score 10 (s\<lparr>pending := cbs\<rparr>))\<lparr>is_merging := False\<rparr>
          = add_score 10 (s\<lparr>pending := cbs, is_merging := False\<rparr>)"
      by (simp add: add_score_def Let_def)
    with Cons CbMatchDone quiet show ?thesis
      by (simp add: fire_callback_def run_callback_def add_score_inv)
  next
    case CbDivideDone
    with Cons quiet show ?thesis
      by (simp add: fire_callback_def run_callback_def)
  next
    case CbTrashDone
    with Cons inv have "session_inv (s\<lparr>pending := cbs\<rparr>)"
      unfolding session_inv_def by (auto simp: is_merge_callback_def)
    with Cons CbTrashDone show ?thesis
      by (simp add: fire_callback_def run_callback_def spawn_next_tile_inv)
  next
    case CbStartGame
    have "session_inv (s\<lparr>pending := cbs\<rparr>)"
      using inv Cons CbStartGame unfolding session_inv_def by (auto simp: is_merge_callback_def)
    with Cons CbStartGame show ?thesis
      by (simp add: fire_callback_def run_callback_def start_new_game_inv)
  qed
qed

lemma handle_input_inv: "session_inv s \<Longrightarrow> session_inv (handle_input i s)"
  by (cases i) (simp_all add: handle_input_def drag_end_inv undo_inv start_new_game_inv
      fire_callback_inv click_restart_def,
      simp_all add: session_inv_def toggle_hints_def set_difficulty_def drag_start_def
      toggle_sound_def click_play_def)

lemma init_session_inv: "valid_rng r \<Longrightarrow> session_inv (init_session stored r)"
  by (simp add: session_inv_def init_session_def tiles_ok_replicate_None cell_ok_def)

lemma reachable_inv: "reachable s \<Longrightarrow> session_inv s"
  by (induction rule: reachable.induct) (simp_all add: init_session_inv handle_input_inv)

end
