(* ===== verification/Session_Props.thy ===== *)
theory Session_Props
  imports Session
begin

text \<open>
  Properties of the session that span its handlers: the fields each operation
  leaves unchanged (\<open>frame_simps\<close>), the history a drop leaves, the claims
  about reachable states, undo, rejected drops, game over, levelling and the
  animation queue.
\<close>

lemma session_invD:
  assumes "session_inv s"
  shows "length (grid s) = 16" "tiles_ok (grid s)" "list_all tile_ok (queue s)"
    "cell_ok (keep_tile s)" "cell_ok (hand s)" "trash_count s \<le> 10" "1 \<le> level s"
    "level s \<le> score s div 10 + 1" "score s \<le> best_score s" "best_score s \<le> saved_best s"
    "length (undo_stack s) \<le> 10" "list_all (snapshot_ok (best_score s)) (undo_stack s)"
    "valid_rng (rng s)" "is_merging s \<Longrightarrow> list_ex is_merge_callback (pending s)"
  using assms unfolding session_inv_def by auto

lemma add_score_frame [frame_simps]:
  "grid (add_score p s) = grid s" "undo_stack (add_score p s) = undo_stack s"
  "queue (add_score p s) = queue s" "hand (add_score p s) = hand s"
  "keep_tile (add_score p s) = keep_tile s" "level (add_score p s) = level s"
  "trash_count (add_score p s) = trash_count s" "is_game_over (add_score p s) = is_game_over s"
  "is_merging (add_score p s) = is_merging s" "pending (add_score p s) = pending s"
  "rng (add_score p s) = rng s" "difficulty (add_score p s) = difficulty s"
  "game_over_ui (add_score p s) = game_over_ui s"
  by (simp_all add: add_score_def Let_def)

lemma check_level_up_frame [frame_simps]:
  "grid (check_level_up s) = grid s" "undo_stack (check_level_up s) = undo_stack s"
  "queue (check_level_up s) = queue s" "hand (check_level_up s) = hand s"
  "keep_tile (check_level_up s) = keep_tile s" "score (check_level_up s) = score s"
  "is_game_over (check_level_up s) = is_game_over s" "is_merging (check_level_up s) = is_merging s"
  "pending (check_level_up s) = pending s" "rng (check_level_up s) = rng s"
  "game_over_ui (check_level_up s) = game_over_ui s"
  by (simp_all add: check_level_up_def Let_def)

lemma check_game_over_frame [frame_simps]:
  "grid (check_game_over s) = grid s" "undo_stack (check_game_over s) = undo_stack s"
  "queue (check_game_over s) = queue s" "hand (check_game_over s) = hand s"
  "keep_tile (check_game_over s) = keep_tile s" "score (check_game_over s) = score s"
  "level (check_game_over s) = level s" "trash_count (check_game_over s) = trash_count s"
  "is_merging (check_game_over s) = is_merging s" "pending (check_game_over s) = pending s"
  "rng (check_game_over s) = rng s" "game_over_ui (check_game_over s) = game_over_ui s"
  "start_armed (check_game_over s) = start_armed s"
  by (simp_all add: check_game_over_def trigger_game_over_def)

lemma replenish_queue_frame [frame_simps]:
  "grid (replenish_queue s) = grid s" "undo_stack (replenish_queue s) = undo_stack s"
  "hand (replenish_queue s) = hand s" "keep_tile (replenish_queue s) = keep_tile s"
  "score (replenish_queue s) = score s" "level (replenish_queue s) = level s"
  "trash_count (replenish_queue s) = trash_count s" "is_game_over (replenish_queue s) = is_game_over s"
  "is_merging (replenish_queue s) = is_merging s" "pending (replenish_queue s) = pending s"
  "game_over_ui (replenish_queue s) = game_over_ui s" "start_armed (replenish_queue s) = start_armed s"
  by (simp_all add: replenish_queue_def split: prod.splits)

lemma spawn_next_tile_frame [frame_simps]:
  "grid (spawn_next_tile s) = grid s" "undo_stack (spawn_next_tile s) = undo_stack s"
  "keep_tile (spawn_next_tile s) = keep_tile s" "score (spawn_next_tile s) = score s"
  "level (spawn_next_tile s) = level s" "trash_count (spawn_next_tile s) = trash_count s"
  "is_merging (spawn_next_tile s) = is_merging s" "pending (spawn_next_tile s) = pending s"
  "game_over_ui (spawn_next_tile s) = game_over_ui s" "start_armed (spawn_next_tile s) = start_armed s"
  by (simp_all add: spawn_next_tile_def Let_def frame_simps split: list.splits)

lemma apply_merge_event_frame [frame_simps]:
  "grid (apply_merge_event e s) = grid s" "undo_stack (apply_merge_event e s) = undo_stack s"
  "queue (apply_merge_event e s) = queue s" "hand (apply_merge_event e s) = hand s"
  "keep_tile (apply_merge_event e s) = keep_tile s" "level (apply_merge_event e s) = level s"
  "trash_count (apply_merge_event e s) = trash_count s"
  "is_game_over (apply_merge_event e s) = is_game_over s" "rng (apply_merge_event e s) = rng s"
  "game_over_ui (apply_merge_event e s) = game_over_ui s"
  by (simp_all add: apply_merge_event_def frame_simps split: merge_event.splits)

lemma fold_apply_merge_event_frame [frame_simps]:
  "grid (fold apply_merge_event evs s) = grid s"
  "undo_stack (fold apply_merge_event evs s) = undo_stack s"
  "queue (fold apply_merge_event evs s) = queue s" "hand (fold apply_merge_event evs s) = hand s"
  "keep_tile (fold apply_merge_event evs s) = keep_tile s"
  "is_game_over (fold apply_merge_event evs s) = is_game_over s"
  "game_over_ui (fold apply_merge_event evs s) = game_over_ui s"
  by (induction evs arbitrary: s) (simp_all add: frame_simps)

lemma apply_merge_event_pending:
  "set (pending (apply_merge_event e s)) \<subseteq> set (pending s) \<union> {CbMatchDone, CbDivideDone}"
  by (cases e) (auto simp: apply_merge_event_def add_score_def Let_def)

lemma fold_apply_merge_event_pending:
  "set (pending (fold apply_merge_event evs s)) \<subseteq> set (pending s) \<union> {CbMatchDone, CbDivideDone}"
proof (induction evs arbitrary: s)
  case (Cons e evs)
  from Cons.IH [of "apply_merge_event e s"] apply_merge_event_pending [of e s] show ?case
    by auto
qed auto

lemma check_merges_session_frame [frame_simps]:
  "grid (check_merges_session i s) = fst (check_merges i (grid s))"
  "undo_stack (check_merges_session i s) = undo_stack s"
  "queue (check_merges_session i s) = queue s" "hand (check_merges_session i s) = hand s"
  "keep_tile (check_merges_session i s) = keep_tile s"
  "is_game_over (check_merges_session i s) = is_game_over s"
  "game_over_ui (check_merges_session i s) = game_over_ui s"
  by (simp_all add: check_merges_session_def frame_simps split: prod.splits)

lemma create_grid_tile_frame [frame_simps]:
  "grid (create_grid_tile i t s) = fst (check_merges i ((grid s)[i := Some t]))"
  "undo_stack (create_grid_tile i t s) = undo_stack s"
  "queue (create_grid_tile i t s) = queue s" "hand (create_grid_tile i t s) = hand s"
  "keep_tile (create_grid_tile i t s) = keep_tile s"
  "is_game_over (create_grid_tile i t s) = is_game_over s"
  "game_over_ui (create_grid_tile i t s) = game_over_ui s"
  by (simp_all add: create_grid_tile_def frame_simps)

lemma create_grid_tile_pending:
  "set (pending (create_grid_tile i t s)) \<subseteq> set (pending s) \<union> {CbMatchDone, CbDivideDone}"
proof -
  let ?s1 = "s\<lparr>sfx := sfx s @ [SndDrop], grid := (grid s)[i := Some t]\<rparr>"
  obtain g evs where r: "check_merges i ((grid s)[i := Some t]) = (g, evs)"
    by (cases "check_merges i ((grid s)[i := Some t])")
  have "set (pending (fold apply_merge_event evs (?s1\<lparr>grid := g\<rparr>)))
        \<subseteq> set (pending (?s1\<lparr>grid := g\<rparr>)) \<union> {CbMatchDone, CbDivideDone}"
    by (rule fold_apply_merge_event_pending)
  then show ?thesis using r by (simp add: create_grid_tile_def check_merges_session_def frame_simps)
qed

lemma create_grid_tile_no_start [frame_simps]:
  "CbStartGame \<notin> set (pending s) \<Longrightarrow> CbStartGame \<notin> set (pending (create_grid_tile i t s))"
  using create_grid_tile_pending [of i t s] by blast

lemma start_new_game_frame [frame_simps]:
  "pending (start_new_game s) = pending s" "game_over_ui (start_new_game s)"
  by (simp_all add: start_new_game_def Let_def frame_simps)

lemma start_new_game_fresh:
  "grid (start_new_game s) = replicate 16 None" "undo_stack (start_new_game s) = []"
  "score (start_new_game s) = 0" "start_armed (start_new_game s) = start_armed s"
  by (simp_all add: start_new_game_def Let_def frame_simps)

lemma fire_callback_ui [frame_simps]: "game_over_ui s \<Longrightarrow> game_over_ui (fire_callback s)"
  by (simp add: fire_callback_def run_callback_def frame_simps split: list.splits callback.splits)

lemma fire_callback_no_start [frame_simps]:
  "CbStartGame \<notin> set (pending s) \<Longrightarrow> CbStartGame \<notin> set (pending (fire_callback s))"
  by (auto simp: fire_callback_def run_callback_def frame_simps split: list.splits callback.splits)

text \<open>Without a pending start of a game, the animations leave board, history and
  keep slot alone.\<close>

lemma fire_callback_frame [frame_simps]:
  assumes "CbStartGame \<notin> set (pending s)"
  shows "grid (fire_callback s) = grid s" "undo_stack (fire_callback s) = undo_stack s"
    "keep_tile (fire_callback s) = keep_tile s" "level (fire_callback s) = level s"
    "trash_count (fire_callback s) = trash_count s"
  using assms by (auto simp: fire_callback_def run_callback_def frame_simps
      split: list.splits callback.splits)

lemma settle_ui [frame_simps]: "game_over_ui s \<Longrightarrow> game_over_ui (settle s)"
proof -
  assume "game_over_ui s"
  then have "game_over_ui ((fire_callback ^^ n) s)" for n
    by (induction n) (simp_all add: frame_simps)
  then show ?thesis by (simp add: settle_def)
qed

lemma settle_frame [frame_simps]:
  assumes ns: "CbStartGame \<notin> set (pending s)"
  shows "grid (settle s) = grid s" "undo_stack (settle s) = undo_stack s"
    "keep_tile (settle s) = keep_tile s"
proof -
  have "grid ((fire_callback ^^ n) s) = grid s \<and> undo_stack ((fire_callback ^^ n) s) = undo_stack s
        \<and> keep_tile ((fire_callback ^^ n) s) = keep_tile s
        \<and> CbStartGame \<notin> set (pending ((fire_callback ^^ n) s))" for n
    by (induction n) (simp_all add: ns frame_simps)
  then show "grid (settle s) = grid s" "undo_stack (settle s) = undo_stack s"
    "keep_tile (settle s) = keep_tile s"
    by (simp_all add: settle_def)
qed

lemma settle_no_start [frame_simps]:
  "CbStartGame \<notin> set (pending s) \<Longrightarrow> CbStartGame \<notin> set (pending (settle s))"
proof -
  assume "CbStartGame \<notin> set (pending s)"
  then have "CbStartGame \<notin> set (pending ((fire_callback ^^ n) s))" for n
    by (induction n) (simp_all add: frame_simps)
  then show ?thesis by (simp add: settle_def)
qed

lemma valid_drop_succeeds:
  "is_valid_drop t target s \<Longrightarrow> try_drop_on_grid t target (save_state s) = Some (create_grid_tile (case target of OnCell i \<Rightarrow> i | _ \<Rightarrow> 0) t (save_state s))"
  by (auto simp: is_valid_drop_def try_drop_on_grid_def save_state_def split: drop_target.splits)

lemma drag_end_history:
  "undo_stack (drag_end obj target s) = undo_stack s
   \<or> undo_stack (drag_end obj target s) = undo_stack (save_state s)"
  by (auto simp: drag_end_def handle_keep_drag_end_def handle_trash_drop_def
      handle_hand_to_keep_def Let_def valid_drop_succeeds frame_simps
      split: option.splits dragged.splits)

lemma drag_end_ui [frame_simps]: "game_over_ui (drag_end obj target s) = game_over_ui s"
  by (auto simp: drag_end_def handle_keep_drag_end_def handle_trash_drop_def
      handle_hand_to_keep_def try_drop_on_grid_def Let_def frame_simps save_state_def
      split: option.splits dragged.splits if_splits drop_target.splits)

lemma drag_end_no_start [frame_simps]:
  assumes "CbStartGame \<notin> set (pending s)"
  shows "CbStartGame \<notin> set (pending (drag_end obj target s))"
    "game_over_ui (drag_end obj target s) = game_over_ui s"
  using assms
  by (auto simp: drag_end_def handle_keep_drag_end_def handle_trash_drop_def
      handle_hand_to_keep_def try_drop_on_grid_def Let_def frame_simps save_state_def
      split: option.splits dragged.splits if_splits drop_target.splits)


lemma board_full_iff:
  "length g = 16 \<Longrightarrow> list_ex (cell_empty g) [0..<16] = (occupied g < 16)"
proof -
  assume len: "length g = 16"
  have "list_ex (cell_empty g) [0..<16] = (None \<in> set g)"
    using len by (auto simp: list_ex_iff cell_empty_def in_set_conv_nth)
  moreover have "(occupied g < 16) = (occupied g \<noteq> length g)"
    using len occupied_le_length [of g] by auto
  ultimately show ?thesis by (simp add: occupied_eq_length_iff)
qed

lemma placement_events_leave_gap:
  assumes len: "length g = 16" and free: "cell_empty g i"
    and evs: "snd (check_merges i (g[i := Some t])) \<noteq> []"
  shows "list_ex (cell_empty (fst (check_merges i (g[i := Some t])))) [0..<16]"
proof -
  let ?r = "check_merges i (g[i := Some t])"
  have c: "occupied (fst ?r) + sum_list (map removed_tiles (snd ?r)) = occupied g + 1"
    using check_merges_conservation [of i "g[i := Some t]"] occupied_fill [OF free] by simp
  have "1 \<le> sum_list (map removed_tiles (snd ?r))"
    using evs by (cases "snd ?r") (auto simp: removed_tiles_def split: merge_event.splits)
  moreover have "occupied g < 16"
  proof -
    have "i < 16" using free len by (simp add: cell_empty_def)
    then have "list_ex (cell_empty g) [0..<16]" using free by (auto simp: list_ex_iff)
    then show ?thesis using board_full_iff [OF len] by simp
  qed
  ultimately have "occupied (fst ?r) < 16" using c by simp
  moreover have "length (fst ?r) = 16" using len by (simp add: check_merges_length)
  ultimately show ?thesis by (simp add: board_full_iff)
qed

lemma check_game_over_flag:
  "is_game_over (check_game_over s)
     = (is_game_over s \<or> (\<not> is_merging s \<and> \<not> list_ex (cell_empty (grid s)) [0..<16]))"
  by (simp add: check_game_over_def trigger_game_over_def)

lemma fold_apply_merge_event_merging:
  "is_merging (fold apply_merge_event evs s) = (is_merging s \<or> evs \<noteq> [])
   \<and> (list_all is_merge_callback (pending s)
        \<longrightarrow> list_all is_merge_callback (pending (fold apply_merge_event evs s)))"
  by (induction evs arbitrary: s)
    (auto simp: apply_merge_event_def add_score_def Let_def is_merge_callback_def
      split: merge_event.splits)

lemma create_grid_tile_merging:
  "is_merging (create_grid_tile i t s) = (is_merging s \<or> snd (check_merges i ((grid s)[i := Some t])) \<noteq> [])"
  "list_all is_merge_callback (pending s) \<Longrightarrow> list_all is_merge_callback (pending (create_grid_tile i t s))"
  using fold_apply_merge_event_merging
  by (simp_all add: create_grid_tile_def check_merges_session_def frame_simps split: prod.splits)

lemma settle_merge_callbacks:
  "list_all is_merge_callback (pending s) \<Longrightarrow> is_game_over (settle s) = is_game_over s"
proof -
  assume all: "list_all is_merge_callback (pending s)"
  have "list_all is_merge_callback (pending ((fire_callback ^^ n) s))
        \<and> is_game_over ((fire_callback ^^ n) s) = is_game_over s" for n
  proof (induction n)
    case 0
    then show ?case using all by simp
  next
    case (Suc n)
    then show ?case
      by (auto simp: fire_callback_def run_callback_def add_score_def Let_def is_merge_callback_def
          split: list.splits callback.splits)
  qed
  then show ?thesis by (simp add: settle_def)
qed

lemma settle_Nil: "pending s = [] \<Longrightarrow> settle s = s"
  by (simp add: settle_def)

text \<open>
  C15: after a hand tile is placed in a settled state and its animations have
  run, the game is over exactly when all 16 cells are occupied.
\<close>

theorem hand_placement_game_over_exact:
  assumes inv: "session_inv s" and settled: "pending s = []" and ngo: "\<not> is_game_over s"
    and h: "hand s = Some h" and free: "i < 16" "cell_empty (grid s) i"
  shows "is_game_over (settle (drag_end HandTile (OnCell i) s))
         = (\<not> list_ex (cell_empty (grid (settle (drag_end HandTile (OnCell i) s)))) [0..<16])"
proof -
  let ?s1 = "save_state s"
  let ?s2 = "create_grid_tile i h ?s1"
  let ?r = "check_merges i ((grid s)[i := Some h])"
  have nm: "\<not> is_merging s" using session_invD(14) [OF inv] settled by auto
  have len: "length (grid s) = 16" using session_invD(1) [OF inv] .
  have "tile_ok h" using session_invD(5) [OF inv] h by (simp add: cell_ok_def)
  then have "is_valid_drop h (OnCell i) s"
    using free by (simp add: is_valid_drop_def tile_ok_def)
  then have d: "drag_end HandTile (OnCell i) s = spawn_next_tile ?s2"
    using ngo h by (simp add: drag_end_def Let_def valid_drop_succeeds)
  have g2: "grid ?s2 = fst ?r" and p1: "pending ?s1 = []" and m1: "\<not> is_merging ?s1"
    using settled nm by (simp_all add: frame_simps save_state_def)
  have go2: "\<not> is_game_over ?s2" using ngo by (simp add: frame_simps save_state_def)
  have pend: "list_all is_merge_callback (pending ?s2)"
    using create_grid_tile_merging(2) [of ?s1] p1 by simp
  have ns: "CbStartGame \<notin> set (pending (spawn_next_tile ?s2))"
    using create_grid_tile_pending [of i h ?s1] p1 by (auto simp: frame_simps)
  obtain q t where q: "queue (replenish_queue ?s2) = t # q"
    using replenish_queue_length [of ?s2] by (cases "queue (replenish_queue ?s2)") auto
  have sp: "spawn_next_tile ?s2 = check_game_over ((replenish_queue ?s2)\<lparr>queue := q, hand := Some t\<rparr>)"
    using q by (simp add: spawn_next_tile_def)
  show ?thesis
  proof (cases "snd ?r = []")
    case True
    then have "pending ?s2 = []" "\<not> is_merging ?s2"
      using p1 m1 create_grid_tile_merging(1) [of i h ?s1]
      by (simp_all add: create_grid_tile_def check_merges_session_def frame_simps save_state_def
          split: prod.splits)
    then show ?thesis
      using d sp g2 go2 by (simp add: settle_Nil frame_simps check_game_over_flag)
  next
    case False
    have gap: "list_ex (cell_empty (fst ?r)) [0..<16]"
      using placement_events_leave_gap [OF len free(2) False] .
    have "is_merging ?s2" using False create_grid_tile_merging(1) [of i h ?s1]
      by (simp add: save_state_def)
    then have "\<not> is_game_over (spawn_next_tile ?s2)"
      using sp go2 by (simp add: check_game_over_flag frame_simps)
    moreover have "list_all is_merge_callback (pending (spawn_next_tile ?s2))"
      using pend by (simp add: frame_simps)
    ultimately show ?thesis
      using d gap g2 ns settle_merge_callbacks by (simp add: frame_simps)
  qed
qed


lemma start_session_reachable:
  "reachable (handle_input TweenDone (handle_input PlayClick (init_session 0 (\<lambda>n. 0))))"
  by (intro reachable.step reachable.init) (simp add: valid_rng_def)

lemma hand_placement_game_over_exact_witness:
  "let s = handle_input TweenDone (handle_input PlayClick (init_session 0 (\<lambda>n. 0)))
   in \<not> is_game_over (settle (drag_end HandTile (OnCell 0) s))
      \<and> list_ex (cell_empty (grid (settle (drag_end HandTile (OnCell 0) s)))) [0..<16]"
proof -
  let ?s = "handle_input TweenDone (handle_input PlayClick (init_session 0 (\<lambda>n. 0)))"
  have inv: "session_inv ?s" using start_session_reachable by (rule reachable_inv)
  have p: "pending ?s = []" and ngo: "\<not> is_game_over ?s" and h: "hand ?s = Some \<lparr>val = 2, tex = TileBlue\<rparr>"
    and e: "cell_empty (grid ?s) 0"
    by code_simp+
  have g: "list_ex (cell_empty (grid (settle (drag_end HandTile (OnCell 0) ?s)))) [0..<16]"
    by code_simp
  from hand_placement_game_over_exact [OF inv p ngo h _ e] g show ?thesis by (simp add: Let_def)
qed

lemma settle_pending_length:
  "length (pending ((fire_callback ^^ n) s)) = length (pending s) - n"
  by (induction n) (auto simp: fire_callback_def run_callback_def frame_simps
      split: list.splits callback.splits)

text \<open>
  C13 (Scenario D): dropping the hand on the trash with no trash left changes
  nothing, the history included.
\<close>

theorem trash_exhausted_unchanged:
  "trash_count s = 0 \<Longrightarrow> drag_end HandTile OnTrash s = s"
  by (simp add: drag_end_def handle_trash_drop_def split: option.splits)

lemma trash_exhausted_unchanged_witness:
  "let s = (handle_input TweenDone (handle_input PlayClick (init_session 0 (\<lambda>n. 0))))\<lparr>trash_count := 0\<rparr>
   in drag_end HandTile OnTrash s = s \<and> hand s \<noteq> None"
proof -
  let ?s = "(handle_input TweenDone (handle_input PlayClick (init_session 0 (\<lambda>n. 0))))\<lparr>trash_count := 0\<rparr>"
  have "hand ?s \<noteq> None" by code_simp
  with trash_exhausted_unchanged [of ?s] show ?thesis by simp
qed

text \<open>
  C14: a drop on an occupied cell is rejected: the kept tile's drop changes
  nothing, and the hand tile's drop changes nothing unless the game is running,
  no merge animation is in progress and all 16 cells are occupied, in which
  case it ends the game (\<open>checkGameOver\<close> in the \<open>else\<close> branch of
  \<open>dragend\<close>, lines 168--172).
\<close>

theorem rejected_drop_unchanged:
  assumes "\<not> cell_empty (grid s) i"
  shows "drag_end KeepTile (OnCell i) s = s
         \<and> drag_end HandTile (OnCell i) s
             = (if \<not> is_game_over s \<and> hand s \<noteq> None \<and> \<not> is_merging s
                   \<and> (\<forall>j<16. \<not> cell_empty (grid s) j)
                then trigger_game_over s else s)"
  using assms
  by (auto simp: drag_end_def handle_keep_drag_end_def is_valid_drop_def check_game_over_def
      list_ex_iff split: option.splits)

lemma rejected_drop_unchanged_witness:
  "let s = (handle_input TweenDone (handle_input PlayClick (init_session 0 (\<lambda>n. 0))))
             \<lparr>grid := empty_grid[3 := Some \<lparr>val = 4, tex = TileRed\<rparr>]\<rparr>
   in \<not> cell_empty (grid s) 3 \<and> drag_end HandTile (OnCell 3) s = s"
proof -
  let ?s = "(handle_input TweenDone (handle_input PlayClick (init_session 0 (\<lambda>n. 0))))
             \<lparr>grid := empty_grid[3 := Some \<lparr>val = 4, tex = TileRed\<rparr>]\<rparr>"
  have occ: "\<not> cell_empty (grid ?s) 3" by code_simp
  have free: "cell_empty (grid ?s) 0" by code_simp
  from rejected_drop_unchanged [OF occ] free have "drag_end HandTile (OnCell 3) ?s = ?s"
    by auto
  then show ?thesis using occ unfolding Let_def by blast
qed

text \<open>
  C11: every reachable state is well formed: the board has 16 cells, every tile
  on the board and in the queue has a value of at least 2, the trash allowance
  is at most 10 and the undo history holds at most 10 snapshots.
\<close>

theorem reachable_state_wellformed:
  assumes "reachable s"
  shows "length (grid s) = 16 \<and> tiles_ok (grid s) \<and> list_all tile_ok (queue s)
         \<and> trash_count s \<le> 10 \<and> length (undo_stack s) \<le> 10"
  using session_invD [OF reachable_inv [OF assms]] by simp

lemma reachable_state_wellformed_witness:
  "trash_count (handle_input TweenDone (handle_input PlayClick (init_session 0 (\<lambda>n. 0)))) \<le> 10
   \<and> length (grid (handle_input TweenDone (handle_input PlayClick (init_session 0 (\<lambda>n. 0))))) = 16"
  using reachable_state_wellformed [OF start_session_reachable] by simp

text \<open>
  C12: in every reachable state the level is at least 1 and never ahead of
  \<open>floor(score / 10) + 1\<close>, the score never exceeds the best score, and the
  best score never exceeds the value stored in \<open>localStorage\<close>.
\<close>

theorem reachable_score_level:
  assumes "reachable s"
  shows "1 \<le> level s \<and> level s \<le> score s div 10 + 1
         \<and> score s \<le> best_score s \<and> best_score s \<le> saved_best s"
  using session_invD [OF reachable_inv [OF assms]] by simp

lemma reachable_score_level_witness:
  "1 \<le> level (handle_input TweenDone (handle_input PlayClick (init_session 7 (\<lambda>n. 0))))
   \<and> best_score (handle_input TweenDone (handle_input PlayClick (init_session 7 (\<lambda>n. 0)))) \<le> 7"
proof -
  have "reachable (handle_input TweenDone (handle_input PlayClick (init_session 7 (\<lambda>n. 0))))"
    by (intro reachable.step reachable.init) (simp add: valid_rng_def)
  from reachable_score_level [OF this] show ?thesis by code_simp
qed

text \<open>
  C16: \<open>checkLevelUp\<close> raises the level to \<open>floor(score / 10) + 1\<close> when that
  is higher and adds one trash use per level gained, capped at 10.
\<close>

theorem check_level_up_rule:
  assumes "trash_count s \<le> 10"
  shows "level (check_level_up s) = max (level s) (score s div 10 + 1)
         \<and> trash_count (check_level_up s) = min 10 (trash_count s + (score s div 10 + 1 - level s))"
  using assms by (auto simp: check_level_up_def Let_def)

lemma check_level_up_rule_witness:
  "let s = (init_session 0 (\<lambda>n. 0))\<lparr>score := 35, trash_count := 9\<rparr>
   in level (check_level_up s) = 4 \<and> trash_count (check_level_up s) = 10"
proof -
  let ?s = "(init_session 0 (\<lambda>n. 0))\<lparr>score := 35, trash_count := 9\<rparr>"
  have "trash_count ?s \<le> 10" by (simp add: init_session_def)
  from check_level_up_rule [OF this] show ?thesis by (simp add: init_session_def)
qed

end
