(* ===== verification/Lookahead.thy ===== *)
theory Lookahead
  imports Session_Props
begin

text \<open>
  TileQueue: how many tiles the queue holds between inputs.  The queue is
  refilled to five only by \<open>replenishQueue\<close> (src/main.js lines 610--620),
  and every call of it is followed at once by \<open>queue.shift()\<close> in
  \<open>spawnNextTile\<close> (lines 357--361), so between two inputs the queue holds
  four tiles once a game has started, and the snapshots of the undo history
  hold the same.
\<close>

definition queue_ok :: "tile list \<Rightarrow> bool" where
  "queue_ok q = (q = [] \<or> length q = 4)"

definition lookahead_ok :: "session \<Rightarrow> bool" where
  "lookahead_ok s = (queue_ok (queue s) \<and> list_all (\<lambda>st. queue_ok (snap_queue st)) (undo_stack s))"

lemma lookahead_ok_sfx [simp]: "lookahead_ok (s\<lparr>sfx := x\<rparr>) = lookahead_ok s"
  by (simp add: lookahead_ok_def)

lemma queue_ok_le_5: "queue_ok q \<Longrightarrow> length q \<le> 5"
  by (auto simp: queue_ok_def)

lemma lookahead_frame:
  "queue t = queue s \<Longrightarrow> undo_stack t = undo_stack s \<Longrightarrow> lookahead_ok s \<Longrightarrow> lookahead_ok t"
  by (simp add: lookahead_ok_def)

lemma replenish_queue_length_exact:
  "length (queue (replenish_queue s)) = max 5 (length (queue s))"
proof -
  obtain q r where "replenish_loop (max_val (difficulty s) (level s)) (queue s) (rng s) = (q, r)"
    by (cases "replenish_loop (max_val (difficulty s) (level s)) (queue s) (rng s)")
  with replenish_loop_length [of "max_val (difficulty s) (level s)" "queue s" "rng s"]
  show ?thesis by (simp add: replenish_queue_def)
qed

lemma spawn_next_tile_queue:
  assumes "length (queue s) \<le> 5"
  shows "length (queue (spawn_next_tile s)) = 4"
proof -
  have len: "length (queue (replenish_queue s)) = 5"
    using assms by (simp add: replenish_queue_length_exact)
  then obtain t q where "queue (replenish_queue s) = t # q"
    by (cases "queue (replenish_queue s)") auto
  with len show ?thesis by (simp add: spawn_next_tile_def frame_simps)
qed

lemma spawn_next_tile_lookahead:
  "lookahead_ok s \<Longrightarrow> lookahead_ok (spawn_next_tile s)"
  using spawn_next_tile_queue [of s]
  by (simp add: lookahead_ok_def queue_ok_def frame_simps queue_ok_le_5)

lemma save_state_lookahead:
  "lookahead_ok s \<Longrightarrow> lookahead_ok (save_state s)"
  by (cases "undo_stack s") (auto simp: lookahead_ok_def save_state_def snapshot_of_def)

lemma create_grid_tile_lookahead:
  "lookahead_ok s \<Longrightarrow> lookahead_ok (create_grid_tile i t s)"
  by (rule lookahead_frame) (simp_all add: frame_simps)

lemma undo_lookahead:
  "lookahead_ok s \<Longrightarrow> lookahead_ok (undo s)"
  by (cases "undo_stack s" rule: rev_cases) (auto simp: lookahead_ok_def undo_def Let_def)

lemma lookahead_fields:
  "lookahead_ok s \<Longrightarrow> lookahead_ok (s\<lparr>keep_tile := k, hand := h\<rparr>)"
  "lookahead_ok s \<Longrightarrow> lookahead_ok (s\<lparr>trash_count := n, pending := p\<rparr>)"
  "lookahead_ok s \<Longrightarrow> lookahead_ok (s\<lparr>keep_tile := k\<rparr>)"
  "lookahead_ok s \<Longrightarrow> lookahead_ok (s\<lparr>undo_stack := butlast (undo_stack s)\<rparr>)"
  by (simp_all add: lookahead_ok_def)

lemma check_game_over_lookahead:
  "lookahead_ok s \<Longrightarrow> lookahead_ok (check_game_over s)"
  by (rule lookahead_frame) (simp_all add: frame_simps)

lemma try_drop_on_grid_lookahead:
  "lookahead_ok s \<Longrightarrow> try_drop_on_grid t target s = Some s' \<Longrightarrow> lookahead_ok s'"
  by (auto simp: try_drop_on_grid_def create_grid_tile_lookahead split: if_splits drop_target.splits)

lemmas lookahead_steps =
  save_state_lookahead spawn_next_tile_lookahead check_game_over_lookahead lookahead_fields

lemma handle_keep_drag_end_lookahead:
  "lookahead_ok s \<Longrightarrow> lookahead_ok (handle_keep_drag_end target s)"
  by (auto simp: handle_keep_drag_end_def Let_def lookahead_steps
      dest: try_drop_on_grid_lookahead [OF save_state_lookahead] split: option.splits)

lemma handle_trash_drop_lookahead:
  "lookahead_ok s \<Longrightarrow> lookahead_ok (handle_trash_drop s)"
  by (simp add: handle_trash_drop_def Let_def lookahead_steps)

lemma handle_hand_to_keep_lookahead:
  "lookahead_ok s \<Longrightarrow> lookahead_ok (handle_hand_to_keep h s)"
  by (simp add: handle_hand_to_keep_def lookahead_steps split: option.splits)

lemma drag_end_lookahead:
  "lookahead_ok s \<Longrightarrow> lookahead_ok (drag_end obj target s)"
  by (auto simp: drag_end_def Let_def lookahead_steps handle_keep_drag_end_lookahead
      handle_trash_drop_lookahead handle_hand_to_keep_lookahead
      dest: try_drop_on_grid_lookahead [OF save_state_lookahead]
      split: option.splits dragged.splits)

lemma start_new_game_lookahead: "lookahead_ok (start_new_game s)"
proof -
  have "length (queue (start_new_game s)) = 4"
    unfolding start_new_game_def Let_def
    by (rule spawn_next_tile_queue) (simp add: replenish_queue_length_exact)
  then show ?thesis
    by (simp add: lookahead_ok_def queue_ok_def start_new_game_def Let_def frame_simps)
qed

lemma run_callback_lookahead:
  "lookahead_ok s \<Longrightarrow> lookahead_ok (run_callback cb s)"
  by (cases cb) (auto simp: run_callback_def spawn_next_tile_lookahead start_new_game_lookahead
      frame_simps intro: lookahead_frame)

lemma fire_callback_lookahead:
  "lookahead_ok s \<Longrightarrow> lookahead_ok (fire_callback s)"
proof -
  assume ok: "lookahead_ok s"
  then have "lookahead_ok (s\<lparr>pending := cbs\<rparr>)" for cbs by (simp add: lookahead_ok_def)
  with ok show ?thesis
    by (simp add: fire_callback_def run_callback_lookahead split: list.splits)
qed

lemma handle_input_lookahead:
  "lookahead_ok s \<Longrightarrow> lookahead_ok (handle_input i s)"
  by (cases i) (simp_all add: handle_input_def drag_end_lookahead undo_lookahead
      start_new_game_lookahead fire_callback_lookahead lookahead_frame
      set_difficulty_def toggle_hints_def toggle_sound_def drag_start_def click_restart_def,
      simp add: click_play_def lookahead_ok_def)

lemma reachable_lookahead: "reachable s \<Longrightarrow> lookahead_ok s"
  by (induction rule: reachable.induct)
    (simp_all add: handle_input_lookahead, simp add: init_session_def lookahead_ok_def queue_ok_def)

text \<open>
  C17: in every reachable state the queue is empty (before the first game) or
  holds exactly four tiles: \<open>replenishQueue\<close> fills it to five and
  \<open>spawnNextTile\<close> takes the front tile at once, so the five-tile lookahead
  of the specification is never observed between inputs.
\<close>

theorem reachable_queue_lookahead:
  assumes "reachable s"
  shows "queue s = [] \<or> length (queue s) = 4"
  using reachable_lookahead [OF assms] by (simp add: lookahead_ok_def queue_ok_def)

lemma reachable_queue_lookahead_witness:
  "length (queue (handle_input TweenDone (handle_input PlayClick (init_session 0 (\<lambda>n. 0))))) = 4"
proof -
  have "queue (handle_input TweenDone (handle_input PlayClick (init_session 0 (\<lambda>n. 0)))) \<noteq> []" by code_simp
  with reachable_queue_lookahead [OF start_session_reachable] show ?thesis by simp
qed

end
