(* ===== verification/Undo_Props.thy ===== *)
theory Undo_Props
  imports Session_Props
begin

text \<open>
  UndoManager over a sequence of drops.  \<open>play\<close> runs a list of drops, each
  followed by the animations it started (\<open>settle\<close>); \<open>all_push\<close> says that
  each drop took a snapshot (\<open>saveState\<close>, src/main.js lines 740--753), and
  \<open>trail\<close> lists the snapshots of the states the drops started from.  The
  history after the run is the old history with its oldest entries evicted
  (bounded FIFO of ten) followed by the trail; undoing once per drop then
  restores the state before the first drop.
\<close>

fun play :: "(dragged \<times> drop_target) list \<Rightarrow> session \<Rightarrow> session" where
  "play [] s = s"
| "play ((obj, target) # ds) s = play ds (settle (drag_end obj target s))"

fun trail :: "(dragged \<times> drop_target) list \<Rightarrow> session \<Rightarrow> snapshot list" where
  "trail [] s = []"
| "trail ((obj, target) # ds) s = snapshot_of s # trail ds (settle (drag_end obj target s))"

fun all_push :: "(dragged \<times> drop_target) list \<Rightarrow> session \<Rightarrow> bool" where
  "all_push [] s = True"
| "all_push ((obj, target) # ds) s =
     (undo_stack (drag_end obj target s) = undo_stack (save_state s)
      \<and> all_push ds (settle (drag_end obj target s)))"

definition restored_from :: "snapshot \<Rightarrow> session \<Rightarrow> bool" where
  "restored_from st v =
     (grid v = restore_grid (snap_grid st) \<and> queue v = snap_queue st \<and> score v = snap_score st
      \<and> level v = snap_level st \<and> trash_count v = snap_trash st \<and> keep_tile v = snap_keep st
      \<and> hand v = snap_hand st \<and> \<not> is_game_over v)"

lemma settle_inv: "session_inv s \<Longrightarrow> session_inv (settle s)"
proof -
  assume inv: "session_inv s"
  have "session_inv ((fire_callback ^^ n) s)" for n
    by (induction n) (simp_all add: inv fire_callback_inv)
  then show ?thesis by (simp add: settle_def)
qed

lemma length_trail [simp]: "length (trail ds s) = length ds"
  by (induction ds s rule: trail.induct) simp_all

lemma pushed_stack:
  assumes "undo_stack (drag_end obj target s) = undo_stack (save_state s)"
    and "length (undo_stack s) \<le> 10" and ns: "CbStartGame \<notin> set (pending s)"
  shows "undo_stack (settle (drag_end obj target s))
     = drop (length (undo_stack s) + 1 - 10) (undo_stack s) @ [snapshot_of s]"
  using assms drag_end_no_start(1) [OF ns, of obj target]
  by (cases "undo_stack s") (auto simp: frame_simps save_state_def le_Suc_eq)

lemma play_ui: "game_over_ui s \<Longrightarrow> game_over_ui (play ds s)"
  by (induction ds s rule: play.induct) (simp_all add: frame_simps)

lemma undo_ui [simp]: "game_over_ui (undo s) = game_over_ui s"
  by (simp add: undo_def Let_def)

text \<open>The history after a run of drops that each took a snapshot.\<close>

lemma play_history:
  assumes "session_inv s" and "all_push ds s" and "length ds \<le> 10"
    and "CbStartGame \<notin> set (pending s)"
  shows "undo_stack (play ds s)
         = drop (length (undo_stack s) + length ds - 10) (undo_stack s) @ trail ds s"
  using assms
proof (induction ds s rule: play.induct)
  case (1 s)
  have "length (undo_stack s) \<le> 10" using session_invD(11) [OF "1.prems"(1)] .
  then show ?case by simp
next
  case (2 obj target ds s)
  let ?s1 = "settle (drag_end obj target s)"
  let ?n = "length (undo_stack s)"
  have len: "?n \<le> 10" using session_invD(11) [OF "2.prems"(1)] .
  have inv1: "session_inv ?s1" using "2.prems"(1) by (simp add: drag_end_inv settle_inv)
  have st1: "undo_stack ?s1 = drop (?n + 1 - 10) (undo_stack s) @ [snapshot_of s]"
    using "2.prems"(2,4) len by (simp add: pushed_stack)
  have ns1: "CbStartGame \<notin> set (pending ?s1)"
    using "2.prems"(4) by (simp add: frame_simps)
  have IH: "undo_stack (play ds ?s1)
            = drop (length (undo_stack ?s1) + length ds - 10) (undo_stack ?s1) @ trail ds ?s1"
    using "2.IH" inv1 ns1 "2.prems"(2,3) by simp
  have small: "length (undo_stack ?s1) + length ds - 10 \<le> length (drop (?n + 1 - 10) (undo_stack s))"
    using st1 len "2.prems"(3) by simp
  have "drop (length (undo_stack ?s1) + length ds - 10) (drop (?n + 1 - 10) (undo_stack s))
        = drop (?n + length ((obj, target) # ds) - 10) (undo_stack s)"
  proof -
    have "length (undo_stack ?s1) + length ds - 10 + (?n + 1 - 10)
          = ?n + length ((obj, target) # ds) - 10"
      using st1 len "2.prems"(3) by simp
    then show ?thesis by (simp add: add.commute)
  qed
  then show ?case using IH st1 small by simp
qed

lemma undo_pops:
  assumes "undo_stack u = pre @ st # sts" and "game_over_ui u"
  shows "undo_stack ((undo ^^ Suc (length sts)) u) = pre
         \<and> restored_from st ((undo ^^ Suc (length sts)) u)"
  using assms
proof (induction sts arbitrary: u rule: rev_induct)
  case Nil
  then show ?case by (simp add: undo_def Let_def restored_from_def)
next
  case (snoc x xs)
  have "undo_stack (undo u) = pre @ st # xs"
    using snoc.prems by (simp add: undo_def Let_def butlast_append)
  moreover have "game_over_ui (undo u)" using snoc.prems by simp
  ultimately have "undo_stack ((undo ^^ Suc (length xs)) (undo u)) = pre
         \<and> restored_from st ((undo ^^ Suc (length xs)) (undo u))"
    by (rule snoc.IH)
  then show ?case by (simp only: length_append_singleton funpow_Suc_right o_apply)
qed

text \<open>
  C19 (undo round trip, specification section 8): after at most ten drops
  that each took a snapshot, with their animations run, undoing once per drop
  restores the board, queue, score, level, trash allowance, keep slot, hand and
  game-over flag of the state before the first drop; the history is the one
  before the drops, less the oldest entries that the bounded history evicted.
\<close>

theorem undo_round_trip:
  assumes inv: "session_inv s" and ngo: "\<not> is_game_over s"
    and ui: "game_over_ui s" and ns: "CbStartGame \<notin> set (pending s)"
    and push: "all_push ds s" and few: "length ds \<le> 10"
  shows "let u = (undo ^^ length ds) (play ds s) in
           grid u = grid s \<and> queue u = queue s \<and> score u = score s \<and> level u = level s
         \<and> trash_count u = trash_count s \<and> keep_tile u = keep_tile s \<and> hand u = hand s
         \<and> is_game_over u = is_game_over s
         \<and> undo_stack u = drop (length (undo_stack s) + length ds - 10) (undo_stack s)"
proof (cases ds)
  case Nil
  then show ?thesis using session_invD(11) [OF inv] by simp
next
  case (Cons d ds')
  obtain obj target where d: "d = (obj, target)" by (cases d)
  let ?pre = "drop (length (undo_stack s) + length ds - 10) (undo_stack s)"
  let ?rest = "trail ds' (settle (drag_end obj target s))"
  have "undo_stack (play ds s) = ?pre @ snapshot_of s # ?rest"
    using play_history [OF inv push few ns] Cons d by simp
  from undo_pops [OF this play_ui [OF ui]] Cons d
  have "undo_stack ((undo ^^ length ds) (play ds s)) = ?pre
        \<and> restored_from (snapshot_of s) ((undo ^^ length ds) (play ds s))"
    by simp
  then show ?thesis
    using session_invD(1) [OF inv] ngo
    by (simp add: restored_from_def snapshot_of_def restore_grid_id Let_def)
qed

lemma undo_round_trip_witness:
  "let s = handle_input TweenDone (handle_input PlayClick (init_session 0 (\<lambda>n. 0)));
       ds = [(HandTile, OnCell 0), (HandTile, OnKeep), (HandTile, OnCell 5)];
       u = (undo ^^ length ds) (play ds s)
   in grid u = grid s \<and> hand u = hand s \<and> keep_tile u = keep_tile s"
proof -
  let ?s = "handle_input TweenDone (handle_input PlayClick (init_session 0 (\<lambda>n. 0)))"
  let ?ds = "[(HandTile, OnCell 0), (HandTile, OnKeep), (HandTile, OnCell 5)]"
  have inv: "session_inv ?s" using start_session_reachable by (rule reachable_inv)
  have ngo: "\<not> is_game_over ?s" by code_simp
  have ui: "game_over_ui ?s" and ns: "CbStartGame \<notin> set (pending ?s)" by code_simp+
  have push: "all_push ?ds ?s" by code_simp
  have few: "length ?ds \<le> 10" by simp
  from undo_round_trip [OF inv ngo ui ns push few] show ?thesis unfolding Let_def by blast
qed

end
