(* ===== verification/Resolver_Spec.thy ===== *)
theory Resolver_Spec
  imports Merge
begin

text \<open>
  The MergeResolver contract of the specification (section 4.4) on a board of
  values: \<open>spec_partner\<close> takes the first neighbour, in the order of
  \<open>adjacent_cells\<close>, whose value equals the placed value or differs from it
  and divides with it (\<open>max(a,b) % min(a,b) == 0\<close>); \<open>spec_resolve\<close>
  clears both cells on a match and stops, and on a divide clears the smaller
  value's cell, writes the quotient into the larger value's cell and resolves
  again from there.  Colours do not take part.  \<open>vals\<close> forgets the colours
  of a board of tiles; the refinement theorem says that \<open>check_merges\<close>
  computes, up to colours, exactly what the contract prescribes.
\<close>

definition vals :: "grid \<Rightarrow> nat option list" where
  "vals g = map (map_option val) g"

fun spec_partner :: "nat option list \<Rightarrow> nat \<Rightarrow> nat list \<Rightarrow> (nat \<times> nat) option" where
  "spec_partner b v [] = None"
| "spec_partner b v (j # js) =
     (case cell_at b j of
        Some w \<Rightarrow>
          if w = v \<or> (w \<noteq> v \<and> max v w mod min v w = 0) then Some (j, w)
          else spec_partner b v js
      | None \<Rightarrow> spec_partner b v js)"

lemma spec_partner_Some:
  "spec_partner b v js = Some (j, w) \<Longrightarrow> cell_at b j = Some w \<and> j \<in> set js"
  by (induction b v js rule: spec_partner.induct) (auto split: if_splits option.splits)

lemma adjacent_cells_other: "j \<in> set (adjacent_cells i) \<Longrightarrow> j \<noteq> i"
  by (auto simp: adjacent_cells_def split: if_splits)

function spec_resolve :: "nat \<Rightarrow> nat option list \<Rightarrow> nat option list \<times> merge_event list" where
  "spec_resolve i b =
     (case cell_at b i of
        None \<Rightarrow> (b, [])
      | Some v \<Rightarrow>
          (case spec_partner b v (adjacent_cells i) of
             None \<Rightarrow> (b, [])
           | Some (j, w) \<Rightarrow>
               if w = v then (b[i := None, j := None], [MatchEv i j])
               else if v < w
               then apsnd ((#) (DivideEv i j (w div v))) (spec_resolve j (b[i := None, j := Some (w div v)]))
               else apsnd ((#) (DivideEv j i (v div w))) (spec_resolve i (b[j := None, i := Some (v div w)]))))"
  by pat_completeness auto
termination
proof (relation "measure (\<lambda>(i, b). occupied b)", goal_cases)
  case 1
  show ?case by simp
next
  case (2 i b v p j w)
  then have "cell_at b j = Some w" "j \<noteq> i"
    using spec_partner_Some adjacent_cells_other by blast+
  with 2 show ?case by (simp add: occupied_clear_replace)
next
  case (3 i b v p j w)
  then have "cell_at b j = Some w" "j \<noteq> i"
    using spec_partner_Some adjacent_cells_other by blast+
  with 3 show ?case by (simp add: occupied_clear_replace)
qed

declare spec_resolve.simps [simp del]

subsection \<open>From tiles to values\<close>

lemma vals_cell_at: "cell_at (vals g) i = map_option val (cell_at g i)"
  by (simp add: vals_def cell_at_def)

lemma vals_update: "vals (g[i := c]) = (vals g)[i := map_option val c]"
  by (simp add: vals_def map_update)

lemma qualifies_iff:
  "(is_match cur nb \<or> is_divide cur nb)
   = (val nb = val cur \<or> (val nb \<noteq> val cur \<and> max (val cur) (val nb) mod min (val cur) (val nb) = 0))"
  by (cases "min (val cur) (val nb) = 0") (auto simp: is_match_def is_divide_def js_divides_def)

lemma find_partner_spec:
  "map_option (\<lambda>(j, nb). (j, val nb)) (find_partner g cur ps)
   = spec_partner (vals g) (val cur) (map pos_index (filter in_bounds ps))"
  by (induction g cur ps rule: find_partner.induct)
    (auto simp: vals_cell_at qualifies_iff split: option.splits)

lemma partner_refines:
  assumes "i < 16"
  shows "spec_partner (vals g) (val cur) (adjacent_cells i)
         = map_option (\<lambda>(j, nb). (j, val nb)) (find_partner g cur (neighbor_positions i))"
proof -
  have "adjacent_cells i = neighbors_of i"
    using neighbors_of_table assms by (simp add: list_all_iff)
  then show ?thesis by (simp add: find_partner_spec neighbors_of_def)
qed

lemma merge_once_Settled:
  assumes "merge_once i g = Settled"
  shows "cell_at g i = None
         \<or> (\<exists>cur. cell_at g i = Some cur \<and> find_partner g cur (neighbor_positions i) = None)"
  using assms by (auto simp: merge_once_def Let_def split: option.splits if_splits)

lemma spec_resolve_unfold:
  "cell_at b i = None \<Longrightarrow> spec_resolve i b = (b, [])"
  "cell_at b i = Some v \<Longrightarrow> spec_partner b v (adjacent_cells i) = None \<Longrightarrow> spec_resolve i b = (b, [])"
  "cell_at b i = Some v \<Longrightarrow> spec_partner b v (adjacent_cells i) = Some (j, v)
   \<Longrightarrow> spec_resolve i b = (b[i := None, j := None], [MatchEv i j])"
  "cell_at b i = Some v \<Longrightarrow> spec_partner b v (adjacent_cells i) = Some (j, w) \<Longrightarrow> v < w
   \<Longrightarrow> spec_resolve i b = apsnd ((#) (DivideEv i j (w div v))) (spec_resolve j (b[i := None, j := Some (w div v)]))"
  "cell_at b i = Some v \<Longrightarrow> spec_partner b v (adjacent_cells i) = Some (j, w) \<Longrightarrow> w < v
   \<Longrightarrow> spec_resolve i b = apsnd ((#) (DivideEv j i (v div w))) (spec_resolve i (b[j := None, i := Some (v div w)]))"
  by (simp_all add: spec_resolve.simps [of i b])

lemma check_merges_vals:
  assumes "length g = 16"
  shows "spec_resolve i (vals g) = apfst vals (check_merges i g)"
  using assms
proof (induction i g rule: check_merges_induct)
  case (Settled i g)
  have "i < 16" if "cell_at g i = Some cur" for cur
    using that Settled.prems cell_at_Some_less by fastforce
  with merge_once_Settled [OF Settled(1)] show ?case
    by (auto simp: check_merges_step Settled(1) vals_cell_at partner_refines intro: spec_resolve_unfold)
next
  case (Matched i g g' e)
  then show ?case
  proof (cases rule: merge_once_Matched)
    case (1 cur n nb)
    have "i < 16" using 1(1) Matched.prems cell_at_Some_less by fastforce
    then have "spec_partner (vals g) (val cur) (adjacent_cells i) = Some (n, val cur)"
      using 1 by (simp add: partner_refines)
    with 1 show ?thesis
      by (simp add: check_merges_step Matched(1) vals_cell_at vals_update spec_resolve_unfold(3))
  qed
next
  case (Divided i g g' e s)
  have len': "length g' = 16" using merge_once_length(2) [OF Divided(1)] Divided.prems by simp
  from Divided(1) show ?case
  proof (cases rule: merge_once_Divided)
    case (1 cur n nb)
    have "i < 16" using 1(1) Divided.prems cell_at_Some_less by fastforce
    then have "spec_partner (vals g) (val cur) (adjacent_cells i) = Some (n, val nb)"
      using 1 by (simp add: partner_refines)
    with 1 Divided.IH [OF len'] show ?thesis
      by (simp add: check_merges_step Divided(1) vals_cell_at vals_update spec_resolve_unfold(4))
  next
    case (2 cur n nb)
    have "i < 16" using 2(1) Divided.prems cell_at_Some_less by fastforce
    then have "spec_partner (vals g) (val cur) (adjacent_cells i) = Some (n, val nb)"
      using 2 by (simp add: partner_refines)
    with 2 Divided.IH [OF len'] show ?thesis
      by (simp add: check_merges_step Divided(1) vals_cell_at vals_update spec_resolve_unfold(5))
  qed
qed

text \<open>
  C18: on the 16-cell board, \<open>checkMerges\<close> refines the MergeResolver
  contract of the specification: forgetting colours, the board it leaves and
  the match and divide events it emits are those of \<open>spec_resolve\<close>.
\<close>

theorem check_merges_refines_spec:
  assumes "length g = 16"
  shows "spec_resolve i (vals g) = apfst vals (check_merges i g)"
  using assms by (rule check_merges_vals)

lemma check_merges_refines_spec_witness:
  "let g = empty_grid[5 := Some \<lparr>val = 8, tex = TileRed\<rparr>, 9 := Some \<lparr>val = 4, tex = TileBlue\<rparr>,
                      1 := Some \<lparr>val = 2, tex = TilePink\<rparr>]
   in spec_resolve 1 (vals g) = apfst vals (check_merges 1 g)"
  unfolding Let_def by (rule check_merges_refines_spec) (simp add: empty_grid_def)

end
