(* ===== verification/Placement.thy ===== *)
theory Placement
  imports Resolver_Spec Session_Props
begin

text \<open>
  The \<open>placeTile\<close> contract of the specification (sections 4.7 and 8) on the
  values of the board and the score: the hand's value is written to the
  empty cell, the resolver of Resolver_Spec.thy runs from there, and every
  match adds 10 and every divide 20.  The session splits this work between
  the drop (\<open>createGridTile\<close>, which adds the divides' 20 at once) and the
  tween callbacks (\<open>CbMatchDone\<close>, which adds the match's 10 later); once
  the animations have run (\<open>settle\<close>) the two agree.  \<open>cb_points\<close> is the
  score a pending callback still owes, so that score plus owed points is what
  the handlers conserve.
\<close>

definition event_points :: "merge_event \<Rightarrow> nat" where
  "event_points e = (case e of MatchEv a b \<Rightarrow> 10 | DivideEv a b q \<Rightarrow> 20)"

definition spec_place :: "nat \<Rightarrow> nat \<Rightarrow> nat option list \<times> nat \<Rightarrow> nat option list \<times> nat" where
  "spec_place i v bs =
     (case spec_resolve i ((fst bs)[i := Some v]) of
        (b', evs) \<Rightarrow> (b', snd bs + sum_list (map event_points evs)))"

definition cb_points :: "callback \<Rightarrow> nat" where
  "cb_points cb = (case cb of CbMatchDone \<Rightarrow> 10 | _ \<Rightarrow> 0)"

definition owed :: "session \<Rightarrow> nat" where
  "owed s = sum_list (map cb_points (pending s))"

lemma add_score_score [simp]: "score (add_score p s) = score s + p"
  by (simp add: add_score_def Let_def)

lemma fold_apply_merge_event_score:
  "score (fold apply_merge_event evs s) + owed (fold apply_merge_event evs s)
   = score s + owed s + sum_list (map event_points evs)"
  by (induction evs arbitrary: s)
    (auto simp: apply_merge_event_def owed_def cb_points_def event_points_def frame_simps
      split: merge_event.splits)

lemma create_grid_tile_score:
  "score (create_grid_tile i t s) + owed (create_grid_tile i t s)
   = score s + owed s + sum_list (map event_points (snd (check_merges i ((grid s)[i := Some t]))))"
  using fold_apply_merge_event_score
  by (simp add: create_grid_tile_def check_merges_session_def owed_def frame_simps split: prod.splits)

lemma fire_callback_score:
  "CbStartGame \<notin> set (pending s) \<Longrightarrow>
   score (fire_callback s) + owed (fire_callback s) = score s + owed s"
  by (auto simp: fire_callback_def run_callback_def owed_def cb_points_def frame_simps
      split: list.splits callback.splits)

lemma settle_score:
  assumes ns: "CbStartGame \<notin> set (pending s)"
  shows "score (settle s) = score s + owed s"
proof -
  have "score ((fire_callback ^^ n) s) + owed ((fire_callback ^^ n) s) = score s + owed s
        \<and> CbStartGame \<notin> set (pending ((fire_callback ^^ n) s))" for n
    by (induction n) (simp_all add: ns fire_callback_score frame_simps)
  moreover have "owed (settle s) = 0"
    using settle_pending_length [of "length (pending s)" s] by (simp add: owed_def settle_def)
  ultimately show ?thesis unfolding settle_def by (metis add.right_neutral)
qed

lemma hand_drop_unfold:
  assumes inv: "session_inv s" and ngo: "\<not> is_game_over s"
    and h: "hand s = Some h" and free: "cell_empty (grid s) i"
  shows "drag_end HandTile (OnCell i) s = spawn_next_tile (create_grid_tile i h (save_state s))"
proof -
  have "i < 16" using free session_invD(1) [OF inv] by (simp add: cell_empty_def)
  moreover have "tile_ok h" using session_invD(5) [OF inv] h by (simp add: cell_ok_def)
  ultimately have "is_valid_drop h (OnCell i) s"
    using free by (simp add: is_valid_drop_def tile_ok_def)
  then show ?thesis using ngo h by (simp add: drag_end_def Let_def valid_drop_succeeds)
qed

lemma session_inv_grid:
  "session_inv s \<Longrightarrow> length g = 16 \<Longrightarrow> tiles_ok g \<Longrightarrow> session_inv (s\<lparr>grid := g\<rparr>)"
  by (simp add: session_inv_def)

text \<open>
  C20: a hand tile placed on an empty cell of a settled state refines the
  \<open>placeTile\<close> contract: once its animations have run, the values on the
  board and the score are those \<open>spec_place\<close> prescribes, and the history
  has gained the snapshot of the state before the drop.
\<close>

theorem place_refines_spec:
  assumes inv: "session_inv s" and settled: "pending s = []" and ngo: "\<not> is_game_over s"
    and h: "hand s = Some h" and free: "cell_empty (grid s) i"
  shows "let u = settle (drag_end HandTile (OnCell i) s) in
           (vals (grid u), score u) = spec_place i (val h) (vals (grid s), score s)
         \<and> undo_stack u = undo_stack (save_state s)"
proof -
  let ?g = "(grid s)[i := Some h]"
  let ?c = "create_grid_tile i h (save_state s)"
  let ?u = "settle (drag_end HandTile (OnCell i) s)"
  have d: "drag_end HandTile (OnCell i) s = spawn_next_tile ?c"
    using hand_drop_unfold [OF inv ngo h free] .
  have ns: "CbStartGame \<notin> set (pending (drag_end HandTile (OnCell i) s))"
    using drag_end_no_start(1) [of s] settled by simp
  have g: "grid ?u = fst (check_merges i ?g)"
    using d ns by (simp add: frame_simps save_state_def)
  have "score ?u = score ?c + owed ?c"
    using d ns by (simp add: settle_score owed_def frame_simps)
  also have "\<dots> = score s + sum_list (map event_points (snd (check_merges i ?g)))"
    using create_grid_tile_score [of i h "save_state s"] settled
    by (simp add: save_state_def owed_def)
  finally have sc: "score ?u = score s + sum_list (map event_points (snd (check_merges i ?g)))" .
  have "length ?g = 16" using session_invD(1) [OF inv] by simp
  then have "spec_resolve i ((vals (grid s))[i := Some (val h)]) = apfst vals (check_merges i ?g)"
    using check_merges_vals [of ?g i] by (simp add: vals_update)
  then have "spec_place i (val h) (vals (grid s), score s)
             = (vals (fst (check_merges i ?g)), score s + sum_list (map event_points (snd (check_merges i ?g))))"
    by (cases "check_merges i ?g") (simp add: spec_place_def)
  moreover have "undo_stack ?u = undo_stack (save_state s)"
    using d ns by (simp add: frame_simps)
  ultimately show ?thesis using g sc by (simp add: Let_def)
qed

lemma place_refines_spec_witness:
  "let s = (handle_input TweenDone (handle_input PlayClick (init_session 0 (\<lambda>n. 0))))
             \<lparr>grid := empty_grid[4 := Some \<lparr>val = 4, tex = TileRed\<rparr>]\<rparr>;
       u = settle (drag_end HandTile (OnCell 0) s)
   in (vals (grid u), score u) = spec_place 0 2 (vals (grid s), score s)"
proof -
  let ?base = "handle_input TweenDone (handle_input PlayClick (init_session 0 (\<lambda>n. 0)))"
  let ?g = "empty_grid[4 := Some \<lparr>val = 4, tex = TileRed\<rparr>]"
  let ?s = "?base\<lparr>grid := ?g\<rparr>"
  have inv0: "session_inv ?base" using start_session_reachable by (rule reachable_inv)
  have "length ?g = 16" "tiles_ok ?g" by code_simp+
  with inv0 have inv: "session_inv ?s" by (rule session_inv_grid)
  have p: "pending ?s = []" and ngo: "\<not> is_game_over ?s"
    and h: "hand ?s = Some \<lparr>val = 2, tex = TileBlue\<rparr>" and e: "cell_empty (grid ?s) 0"
    by code_simp+
  from place_refines_spec [OF inv p ngo h e] show ?thesis by (simp add: Let_def)
qed

text \<open>
  C28: a new game inherits the points of the match animations still running:
  \<open>startNewGame\<close> resets the score to 0 but cancels no tween, so once the
  pending callbacks have run the score is the 10 points each pending match
  callback adds (\<open>owed\<close>), where the specification starts a new game at 0.
\<close>

theorem new_game_inherits_owed_points:
  assumes "CbStartGame \<notin> set (pending s)"
  shows "score (settle (start_new_game s)) = owed s"
proof -
  have "CbStartGame \<notin> set (pending (start_new_game s))" using assms by (simp add: frame_simps)
  then show ?thesis by (simp add: settle_score start_new_game_fresh owed_def frame_simps)
qed

theorem new_game_inherits_owed_points_witness:
  "let s = (handle_input TweenDone (handle_input PlayClick (init_session 0 (\<lambda>n. 0))))
             \<lparr>score := 40, pending := [CbMatchDone]\<rparr>
   in CbStartGame \<notin> set (pending s) \<and> score (settle (start_new_game s)) = 10"
proof -
  define s where "s = (handle_input TweenDone (handle_input PlayClick (init_session 0 (\<lambda>n. 0))))
             \<lparr>score := 40, pending := [CbMatchDone]\<rparr>"
  have ns: "CbStartGame \<notin> set (pending s)" unfolding s_def by simp
  have "owed s = 10" unfolding s_def by (simp add: owed_def cb_points_def)
  with new_game_inherits_owed_points [OF ns] ns show ?thesis unfolding Let_def s_def [symmetric] by simp
qed

end
