(* ===== verification/Phases.thy ===== *)
theory Phases
  imports Session_Props
begin

text \<open>
  The GameSession state machine of the specification (section 4.7): the
  phases \<open>Active\<close> and \<open>GameOver\<close>, and the transitions each kind of
  operation may take.  \<open>game_step p op full p'\<close> says that the operation
  \<open>op\<close> may take phase \<open>p\<close> to \<open>p'\<close> when the board after it is full
  exactly if \<open>full\<close>: moves (placements, keep, trash, and the animation
  that completes a trash) may end the game only on a full board and leave a
  finished game finished, undo keeps a running game running and revives a
  finished one exactly when it has a snapshot to restore and the game-over
  panel exists, and a new game always starts active.  \<open>phase_of\<close>
  reads the phase of a session (\<open>isGameOver\<close>) and \<open>op_of\<close> classifies
  the scene's inputs.
\<close>

datatype phase = Active | GameOver

text \<open>
  \<open>UndoOp b\<close> is an undo; \<open>b\<close> says whether it can revive a finished game:
  the history is not empty (line 756) and the game-over panel exists (line 761).
\<close>

datatype game_op = Move | UndoOp bool | NewGameOp | Setting

inductive game_step :: "phase \<Rightarrow> game_op \<Rightarrow> bool \<Rightarrow> phase \<Rightarrow> bool" where
  move_continue: "game_step Active Move full Active"
| move_end: "game_step Active Move True GameOver"
| move_rejected: "game_step GameOver Move full GameOver"
| undo_active: "game_step Active (UndoOp b) full Active"
| undo_revive: "game_step GameOver (UndoOp True) full Active"
| undo_nothing: "game_step GameOver (UndoOp False) full GameOver"
| new_game: "game_step p NewGameOp full Active"
| setting: "game_step p Setting full p"

inductive_cases game_step_GameOverE: "game_step p op full GameOver"

definition phase_of :: "session \<Rightarrow> phase" where
  "phase_of s = (if is_game_over s then GameOver else Active)"

definition starts_game :: "session \<Rightarrow> bool" where
  "starts_game s = (case pending s of CbStartGame # cbs \<Rightarrow> True | _ \<Rightarrow> False)"

text \<open>
  A completing tween is the start of a game when it is the fade of the start
  popup, and a move otherwise; the RESTART button starts a game when its panel
  is shown; clicking PLAY, dragging, and the settings keys change no phase.
\<close>

definition op_of :: "input \<Rightarrow> session \<Rightarrow> game_op" where
  "op_of i s =
     (case i of
        DragEnd obj target \<Rightarrow> Move
      | TweenDone \<Rightarrow> (if starts_game s then NewGameOp else Move)
      | KeyZ \<Rightarrow> UndoOp (undo_stack s \<noteq> [] \<and> game_over_ui s)
      | KeyR \<Rightarrow> NewGameOp
      | RestartClick \<Rightarrow> (if is_game_over s \<and> game_over_ui s then NewGameOp else Setting)
      | _ \<Rightarrow> Setting)"

definition board_full :: "session \<Rightarrow> bool" where
  "board_full s = (\<not> list_ex (cell_empty (grid s)) [0..<16])"

lemma board_full_sfx [simp]: "board_full (s\<lparr>sfx := x\<rparr>) = board_full s"
  by (simp add: board_full_def)

lemma game_over_after:
  "\<not> is_game_over s \<Longrightarrow> is_game_over (check_game_over s) \<Longrightarrow> board_full (check_game_over s)"
  by (simp add: check_game_over_flag board_full_def frame_simps)

lemma spawn_next_tile_over:
  "\<not> is_game_over s \<Longrightarrow> is_game_over (spawn_next_tile s) \<Longrightarrow> board_full (spawn_next_tile s)"
  by (auto simp: spawn_next_tile_def Let_def frame_simps game_over_after split: list.splits)

lemma spawn_next_tile_stays_over:
  "is_game_over s \<Longrightarrow> is_game_over (spawn_next_tile s)"
  by (auto simp: spawn_next_tile_def Let_def frame_simps check_game_over_flag split: list.splits)

lemma save_state_flag [simp]: "is_game_over (save_state s) = is_game_over s"
  by (simp add: save_state_def)

lemma try_drop_on_grid_flag:
  "try_drop_on_grid t target s = Some s' \<Longrightarrow> is_game_over s' = is_game_over s"
  by (auto simp: try_drop_on_grid_def frame_simps split: if_splits drop_target.splits)

lemma handle_keep_drag_end_flag:
  "is_game_over (handle_keep_drag_end target s) = is_game_over s"
  by (auto simp: handle_keep_drag_end_def Let_def dest: try_drop_on_grid_flag
      split: option.splits)

lemma handle_trash_drop_flag: "is_game_over (handle_trash_drop s) = is_game_over s"
  by (simp add: handle_trash_drop_def Let_def)

lemma handle_hand_to_keep_over:
  "\<not> is_game_over s \<Longrightarrow> is_game_over (handle_hand_to_keep h s) \<Longrightarrow>
   board_full (handle_hand_to_keep h s)"
  by (auto simp: handle_hand_to_keep_def intro: spawn_next_tile_over game_over_after
      split: option.splits)

lemma drag_end_over:
  assumes ngo: "\<not> is_game_over s" and over: "is_game_over (drag_end obj target s)"
  shows "board_full (drag_end obj target s)"
proof (cases obj)
  case KeepTile
  with ngo over show ?thesis by (simp add: drag_end_def handle_keep_drag_end_flag)
next
  case HandTile
  show ?thesis
  proof (cases "hand s")
    case None
    with ngo over HandTile show ?thesis by (simp add: drag_end_def)
  next
    case (Some h)
    have "\<not> is_game_over (save_state s)" using ngo by simp
    then have drop: "board_full s2'" if "s2' = (case try_drop_on_grid h target (save_state s) of
                     Some s2 \<Rightarrow> spawn_next_tile s2
                   | None \<Rightarrow> (save_state s)\<lparr>undo_stack := butlast (undo_stack (save_state s))\<rparr>)"
        and "is_game_over s2'" for s2'
      using that by (auto intro: spawn_next_tile_over dest: try_drop_on_grid_flag
          split: option.splits)
    show ?thesis
      using HandTile Some ngo over drop [OF refl]
      by (auto simp: drag_end_def Let_def handle_trash_drop_flag
          intro: handle_hand_to_keep_over game_over_after split: if_splits)
  qed
qed

lemma start_new_game_active: "\<not> is_game_over (start_new_game s)"
proof -
  have "list_ex (cell_empty (replicate 16 (None :: tile option))) [0..<16]"
    by (auto simp: list_ex_iff cell_empty_def intro: exI [of _ 0])
  then show ?thesis
    by (simp add: start_new_game_def spawn_next_tile_def Let_def frame_simps check_game_over_flag
        split: list.splits)
qed

lemma fire_callback_over:
  "\<not> is_game_over s \<Longrightarrow> is_game_over (fire_callback s) \<Longrightarrow> board_full (fire_callback s)"
  "is_game_over s \<Longrightarrow> \<not> starts_game s \<Longrightarrow> is_game_over (fire_callback s)"
  "starts_game s \<Longrightarrow> \<not> is_game_over (fire_callback s)"
  by (auto simp: fire_callback_def run_callback_def frame_simps add_score_def Let_def starts_game_def
      start_new_game_active intro: spawn_next_tile_over spawn_next_tile_stays_over
      split: list.splits callback.splits)

lemma undo_flag:
  "is_game_over (undo s) = (is_game_over s \<and> (undo_stack s = [] \<or> \<not> game_over_ui s))"
  by (auto simp: undo_def Let_def)

lemma move_step:
  assumes "is_game_over s \<Longrightarrow> s' = s"
    and "\<not> is_game_over s \<Longrightarrow> is_game_over s' \<Longrightarrow> board_full s'"
  shows "game_step (phase_of s) Move (board_full s') (phase_of s')"
  using assms by (cases "is_game_over s"; cases "is_game_over s'")
    (auto simp: phase_of_def intro: game_step.intros)

text \<open>
  C21: every input of the scene takes the session along a transition of the
  specification's state machine: moves end the game only on a full board and
  leave a finished game finished, undo of a finished game revives it exactly
  when the history is not empty and the game-over panel exists (and otherwise
  leaves it finished), undo never ends a running game, a new game is active,
  and the settings keys do not change the phase.
\<close>

theorem input_follows_state_machine:
  "game_step (phase_of s) (op_of i s) (board_full (handle_input i s)) (phase_of (handle_input i s))"
proof (cases i)
  case (DragEnd obj target)
  have "is_game_over s \<Longrightarrow> drag_end obj target s = s" by (simp add: drag_end_def)
  with DragEnd show ?thesis
    by (simp add: handle_input_def op_of_def move_step drag_end_over)
next
  case TweenDone
  show ?thesis
  proof (cases "starts_game s")
    case True
    with TweenDone fire_callback_over(3) [OF True] show ?thesis
      by (auto simp: handle_input_def op_of_def phase_of_def intro: game_step.intros)
  next
    case False
    then have "is_game_over s \<Longrightarrow> is_game_over (fire_callback s)" by (simp add: fire_callback_over(2))
    then show ?thesis using TweenDone False fire_callback_over(1) [of s]
      by (cases "is_game_over s"; cases "is_game_over (fire_callback s)")
        (auto simp: handle_input_def op_of_def phase_of_def intro: game_step.intros)
  qed
next
  case KeyZ
  then show ?thesis
    by (auto simp: handle_input_def op_of_def phase_of_def undo_flag intro: game_step.intros)
next
  case RestartClick
  then show ?thesis
    by (auto simp: handle_input_def op_of_def phase_of_def click_restart_def start_new_game_active
        intro: game_step.intros)
qed (auto simp: handle_input_def op_of_def phase_of_def start_new_game_active set_difficulty_def
       toggle_hints_def toggle_sound_def drag_start_def click_play_def intro: game_step.intros)

text \<open>
  C27: placing the kept tile on the last empty cell, where it merges with no
  neighbour, fills the board without ending the game:
  \<open>handleKeepDragEnd\<close> (lines 391--409) never calls \<open>checkGameOver\<close>,
  unlike a hand placement (C15), so the session sits on a full board with the
  game running.
\<close>

theorem kept_tile_fills_board_without_game_over:
  assumes "\<not> is_game_over s" "keep_tile s = Some k" "val k \<noteq> 0" "length (grid s) = 16"
    and "i < 16" "cell_empty (grid s) i" "\<forall>j<16. j \<noteq> i \<longrightarrow> \<not> cell_empty (grid s) j"
    and "\<not> check_if_merge_possible (grid s) i (val k)"
  shows "board_full (drag_end KeepTile (OnCell i) s) \<and> \<not> is_game_over (drag_end KeepTile (OnCell i) s)"
proof -
  have np: "find_partner ((grid s)[i := Some k]) k (neighbor_positions i) = None"
    using assms(8) unfolding hint_iff_partner [OF assms(6)] by (simp only: not_not)
  have "merge_once i ((grid s)[i := Some k]) = Settled"
    using np assms(4,5) by (simp add: merge_once_def cell_at_def)
  then have g: "grid (create_grid_tile i k (save_state s)) = (grid s)[i := Some k]"
    by (simp add: frame_simps check_merges_Settled save_state_def)
  have d: "drag_end KeepTile (OnCell i) s = (create_grid_tile i k (save_state s))\<lparr>keep_tile := None\<rparr>"
    using assms(1-6) by (simp add: drag_end_def handle_keep_drag_end_def is_valid_drop_def
                                   try_drop_on_grid_def save_state_def Let_def)
  have "board_full (drag_end KeepTile (OnCell i) s)"
    using assms(4,5,7) unfolding d board_full_def list_ex_iff
    by (auto simp: g cell_empty_def nth_list_update)
  moreover have "\<not> is_game_over (drag_end KeepTile (OnCell i) s)"
    using assms(1) by (simp add: drag_end_def handle_keep_drag_end_flag)
  ultimately show ?thesis by blast
qed

theorem kept_tile_fills_board_without_game_over_witness:
  "let s = (handle_input TweenDone (handle_input PlayClick (init_session 0 (\<lambda>n. 0))))
             \<lparr>grid := map (\<lambda>v. Some \<lparr>val = v, tex = TileRed\<rparr>)
                        [2, 3, 5, 7, 11, 13, 17, 19, 23, 29, 31, 37, 41, 43, 47] @ [None],
              keep_tile := Some \<lparr>val = 53, tex = TileBlue\<rparr>\<rparr>
   in \<not> is_game_over s \<and> length (grid s) = 16 \<and> cell_empty (grid s) 15
      \<and> (\<forall>j<16. j \<noteq> 15 \<longrightarrow> \<not> cell_empty (grid s) j)
      \<and> \<not> check_if_merge_possible (grid s) 15 53
      \<and> board_full (drag_end KeepTile (OnCell 15) s) \<and> \<not> is_game_over (drag_end KeepTile (OnCell 15) s)"
proof -
  define s where "s = (handle_input TweenDone (handle_input PlayClick (init_session 0 (\<lambda>n. 0))))
             \<lparr>grid := map (\<lambda>v. Some \<lparr>val = v, tex = TileRed\<rparr>)
                        [2, 3, 5, 7, 11, 13, 17, 19, 23, 29, 31, 37, 41, 43, 47] @ [None],
              keep_tile := Some \<lparr>val = 53, tex = TileBlue\<rparr>\<rparr>"
  have h1: "\<not> is_game_over s" unfolding s_def by code_simp
  have h2: "keep_tile s = Some \<lparr>val = 53, tex = TileBlue\<rparr>" unfolding s_def by simp
  have h4: "length (grid s) = 16" unfolding s_def by simp
  have h6: "cell_empty (grid s) 15" unfolding s_def by code_simp
  have "list_all (\<lambda>j. j = 15 \<or> \<not> cell_empty (grid s) j) [0..<16]"
    unfolding s_def by code_simp
  then have h7: "\<forall>j<16. j \<noteq> 15 \<longrightarrow> \<not> cell_empty (grid s) j"
    by (auto simp: list_all_iff)
  have h8: "\<not> check_if_merge_possible (grid s) 15 53" unfolding s_def by code_simp
  have c: "board_full (drag_end KeepTile (OnCell 15) s) \<and> \<not> is_game_over (drag_end KeepTile (OnCell 15) s)"
    using kept_tile_fills_board_without_game_over [OF h1 h2 _ h4 _ h6 h7] h8 by simp
  show ?thesis unfolding Let_def s_def [symmetric] using h1 h4 h6 h7 h8 c by blast
qed

end
