(* ===== verification/Audio.thy ===== *)
theory Audio
  imports Phases Placement
begin

text \<open>
  Audio (src/main.js lines 238--271, 281, 309--312, 342--343, 758--765): the
  looping music \<open>bgm\<close> is started by \<open>startNewGame\<close>, stopped by
  \<open>triggerGameOver\<close> and restarted by an undo that revives a finished game;
  \<open>toggleSoundGlobal\<close> flips \<open>isMuted\<close> and mutes the music accordingly;
  the sound effects are appended to \<open>sfx\<close> whatever \<open>isMuted\<close> says.
  \<open>audio_ok\<close> is the invariant that ties the music to the game: before the
  first game (no \<open>gameOverContainer\<close> yet) nothing has been placed and the
  music is silent; afterwards the music plays exactly while the game is not
  over.  \<open>music_follows s s'\<close> says that an operation leaves the mute state
  alone, never revives a finished game, and stops the music exactly when it
  ends the game.
\<close>

definition audio_ok :: "session \<Rightarrow> bool" where
  "audio_ok s =
     (bgm_muted s = is_muted s \<and>
      (if game_over_ui s then bgm_playing s = (\<not> is_game_over s)
       else \<not> bgm_playing s \<and> \<not> is_game_over s \<and> grid s = replicate 16 None \<and> hand s = None
            \<and> keep_tile s = None \<and> undo_stack s = [] \<and> list_all (\<lambda>c. c = CbStartGame) (pending s)))"

definition music_follows :: "session \<Rightarrow> session \<Rightarrow> bool" where
  "music_follows s s' =
     (bgm_muted s' = bgm_muted s \<and> is_muted s' = is_muted s
      \<and> bgm_playing s' = (bgm_playing s \<and> (is_game_over s' \<longrightarrow> is_game_over s))
      \<and> (is_game_over s \<longrightarrow> is_game_over s') \<and> game_over_ui s' = game_over_ui s)"

abbreviation set_audio :: "bool \<Rightarrow> bool \<Rightarrow> session \<Rightarrow> session" where
  "set_audio m c s \<equiv> s\<lparr>is_muted := m, bgm_muted := c\<rparr>"

abbreviation mute :: "bool \<Rightarrow> session \<Rightarrow> session" where
  "mute b s \<equiv> set_audio b b s"

lemma music_follows_refl [simp]: "music_follows s s"
  by (auto simp: music_follows_def)

lemma music_follows_trans:
  "music_follows s t \<Longrightarrow> music_follows t u \<Longrightarrow> music_follows s u"
  by (auto simp: music_follows_def)

lemma music_follows_quiet:
  "bgm_muted t = bgm_muted s \<Longrightarrow> is_muted t = is_muted s \<Longrightarrow> bgm_playing t = bgm_playing s
   \<Longrightarrow> is_game_over t = is_game_over s \<Longrightarrow> game_over_ui t = game_over_ui s \<Longrightarrow> music_follows s t"
  by (auto simp: music_follows_def)

lemma trigger_game_over_music: "music_follows s (trigger_game_over s)"
  by (auto simp: music_follows_def trigger_game_over_def)

lemma check_game_over_music: "music_follows s (check_game_over s)"
  by (simp add: check_game_over_def trigger_game_over_music)

lemma add_score_music: "music_follows s (add_score p s)"
  by (simp add: add_score_def Let_def music_follows_def)

lemma replenish_queue_music: "music_follows s (replenish_queue s)"
  by (simp add: replenish_queue_def music_follows_def split: prod.splits)

lemma spawn_next_tile_music: "music_follows s (spawn_next_tile s)"
proof -
  have "music_follows s (replenish_queue s)" by (rule replenish_queue_music)
  moreover have "music_follows (replenish_queue s) (spawn_next_tile s)"
  proof (cases "queue (replenish_queue s)")
    case Nil
    then show ?thesis by (simp add: spawn_next_tile_def)
  next
    case (Cons t q)
    have "music_follows (replenish_queue s) ((replenish_queue s)\<lparr>queue := q, hand := Some t\<rparr>)"
      by (simp add: music_follows_def)
    with Cons show ?thesis
      by (simp add: spawn_next_tile_def music_follows_trans [OF _ check_game_over_music])
  qed
  ultimately show ?thesis by (rule music_follows_trans)
qed

lemma fold_apply_merge_event_music: "music_follows s (fold apply_merge_event evs s)"
proof (induction evs arbitrary: s)
  case (Cons e evs)
  have "music_follows s (apply_merge_event e s)"
    by (auto simp: apply_merge_event_def add_score_def Let_def music_follows_def
        split: merge_event.splits)
  with Cons.IH [of "apply_merge_event e s"] show ?case by (simp add: music_follows_trans)
qed simp

lemma create_grid_tile_music: "music_follows s (create_grid_tile i t s)"
proof -
  let ?s1 = "s\<lparr>sfx := sfx s @ [SndDrop], grid := (grid s)[i := Some t]\<rparr>"
  obtain g evs where r: "check_merges i ((grid s)[i := Some t]) = (g, evs)"
    by (cases "check_merges i ((grid s)[i := Some t])")
  have "music_follows (?s1\<lparr>grid := g\<rparr>) (fold apply_merge_event evs (?s1\<lparr>grid := g\<rparr>))"
    by (rule fold_apply_merge_event_music)
  then have "music_follows s (check_merges_session i ?s1)"
    using r by (simp add: check_merges_session_def music_follows_def)
  moreover have "music_follows (check_merges_session i ?s1) (check_level_up (check_merges_session i ?s1))"
    by (simp add: check_level_up_def Let_def music_follows_def)
  ultimately show ?thesis by (simp add: create_grid_tile_def music_follows_trans)
qed

lemma save_state_music: "music_follows s (save_state s)"
  by (simp add: save_state_def music_follows_def)

lemma try_drop_on_grid_music:
  "try_drop_on_grid t target s = Some s' \<Longrightarrow> music_follows s s'"
  by (auto simp: try_drop_on_grid_def create_grid_tile_music split: if_splits drop_target.splits)

lemma handle_keep_drag_end_music: "music_follows s (handle_keep_drag_end target s)"
proof (cases "keep_tile s")
  case (Some k)
  have "music_follows s (save_state s)" by (rule save_state_music)
  moreover have "music_follows (save_state s)
      (case try_drop_on_grid k target (save_state s) of
         Some s2 \<Rightarrow> s2\<lparr>keep_tile := None\<rparr>
       | None \<Rightarrow> (save_state s)\<lparr>undo_stack := butlast (undo_stack (save_state s))\<rparr>)"
    by (auto simp: music_follows_def dest: try_drop_on_grid_music split: option.splits)
  ultimately show ?thesis using Some
    by (auto simp: handle_keep_drag_end_def Let_def intro: music_follows_trans)
qed (simp add: handle_keep_drag_end_def)

lemma handle_trash_drop_music: "music_follows s (handle_trash_drop s)"
  by (simp add: handle_trash_drop_def Let_def save_state_def music_follows_def)

lemma handle_hand_to_keep_music: "music_follows s (handle_hand_to_keep h s)"
proof -
  have k: "music_follows s (s\<lparr>keep_tile := Some h\<rparr>)"
    "music_follows s (s\<lparr>keep_tile := Some h, hand := k\<rparr>)" for k
    by (simp_all add: music_follows_def)
  have "music_follows s (case keep_tile s of
          None \<Rightarrow> spawn_next_tile (s\<lparr>keep_tile := Some h\<rparr>)
        | Some k \<Rightarrow> check_game_over (s\<lparr>keep_tile := Some h, hand := Some k\<rparr>))"
    using music_follows_trans [OF k(1) spawn_next_tile_music]
      music_follows_trans [OF k(2) check_game_over_music]
    by (simp split: option.splits)
  then show ?thesis by (simp add: handle_hand_to_keep_def music_follows_def)
qed

lemma drag_end_music: "music_follows s (drag_end obj target s)"
proof -
  have "music_follows s (case try_drop_on_grid h target (save_state s) of
            Some s2 \<Rightarrow> spawn_next_tile s2
          | None \<Rightarrow> (save_state s)\<lparr>undo_stack := butlast (undo_stack (save_state s))\<rparr>)" for h
  proof (cases "try_drop_on_grid h target (save_state s)")
    case None
    have "music_follows (save_state s)
            ((save_state s)\<lparr>undo_stack := butlast (undo_stack (save_state s))\<rparr>)"
      by (simp add: music_follows_def)
    with None show ?thesis by (simp add: music_follows_trans [OF save_state_music])
  next
    case (Some s2)
    then have "music_follows (save_state s) (spawn_next_tile s2)"
      by (blast intro: music_follows_trans [OF try_drop_on_grid_music spawn_next_tile_music])
    with Some show ?thesis by (simp add: music_follows_trans [OF save_state_music])
  qed
  then show ?thesis
    by (auto simp: drag_end_def Let_def handle_keep_drag_end_music handle_trash_drop_music
        check_game_over_music intro: music_follows_trans [OF save_state_music handle_hand_to_keep_music]
        split: dragged.splits option.splits)
qed

lemma run_callback_music: "cb \<noteq> CbStartGame \<Longrightarrow> music_follows s (run_callback cb s)"
  by (cases cb) (simp_all add: run_callback_def spawn_next_tile_music,
      simp_all add: add_score_def Let_def music_follows_def)

lemma audio_ok_follow:
  "audio_ok s \<Longrightarrow> game_over_ui s \<Longrightarrow> music_follows s s' \<Longrightarrow> audio_ok s'"
  by (auto simp: audio_ok_def music_follows_def)

lemma start_new_game_audio: "audio_ok (start_new_game s)"
proof -
  define x where "x = (play_sound SndRestart s)\<lparr>best_score := saved_best s, grid := replicate 16 None,
    undo_stack := [], queue := [], score := 0, level := 1, trash_count := 10, keep_tile := None,
    hints_active := False, is_game_over := False, is_merging := False, game_over_ui := True,
    bgm_playing := True, bgm_muted := is_muted s\<rparr>"
  have e: "start_new_game s = spawn_next_tile (replenish_queue x)"
    by (simp add: start_new_game_def Let_def x_def)
  have "music_follows x (start_new_game s)"
    unfolding e by (rule music_follows_trans [OF replenish_queue_music spawn_next_tile_music])
  then show ?thesis
    using start_new_game_active [of s] start_new_game_frame(2) [of s]
    by (simp add: audio_ok_def music_follows_def x_def)
qed

lemma fire_callback_audio:
  assumes ok: "audio_ok s"
  shows "audio_ok (fire_callback s)"
proof (cases "pending s")
  case Nil
  with ok show ?thesis by (simp add: fire_callback_def)
next
  case (Cons cb cbs)
  show ?thesis
  proof (cases "cb = CbStartGame")
    case True
    with Cons show ?thesis by (simp add: fire_callback_def run_callback_def start_new_game_audio)
  next
    case False
    with Cons ok have ui: "game_over_ui s" by (auto simp: audio_ok_def split: if_splits)
    have "music_follows s (s\<lparr>pending := cbs\<rparr>)" by (simp add: music_follows_def)
    then have "music_follows s (run_callback cb (s\<lparr>pending := cbs\<rparr>))"
      using run_callback_music [OF False] by (rule music_follows_trans)
    with Cons ok ui show ?thesis by (simp add: fire_callback_def audio_ok_follow)
  qed
qed

lemma undo_audio: "audio_ok s \<Longrightarrow> audio_ok (undo s)"
  by (auto simp: audio_ok_def undo_def Let_def)

lemma drag_end_audio:
  assumes ok: "audio_ok s"
  shows "audio_ok (drag_end obj target s)"
proof (cases "game_over_ui s")
  case True
  with ok show ?thesis by (simp add: audio_ok_follow drag_end_music)
next
  case False
  with ok have "hand s = None" "keep_tile s = None" by (simp_all add: audio_ok_def)
  then have "drag_end obj target s = s"
    by (simp add: drag_end_def handle_keep_drag_end_def split: dragged.splits)
  with ok show ?thesis by simp
qed

lemma handle_input_audio: "audio_ok s \<Longrightarrow> audio_ok (handle_input i s)"
  by (cases i) (simp_all add: handle_input_def drag_end_audio undo_audio start_new_game_audio
      fire_callback_audio click_restart_def,
      auto simp: audio_ok_def drag_start_def toggle_sound_def click_play_def
      set_difficulty_def toggle_hints_def split: if_splits)

lemma reachable_audio: "reachable s \<Longrightarrow> audio_ok s"
  by (induction rule: reachable.induct)
    (simp_all add: handle_input_audio, simp add: audio_ok_def init_session_def)

text \<open>
  C22: in every reachable state the music is muted exactly when
  \<open>isMuted\<close> is set, and it plays exactly while a game has been started and
  is not over: \<open>triggerGameOver\<close> stops it, \<open>startNewGame\<close> and an undo
  that revives a finished game start it again.
\<close>

theorem reachable_music_state:
  assumes "reachable s"
  shows "bgm_muted s = is_muted s \<and> bgm_playing s = (game_over_ui s \<and> \<not> is_game_over s)"
  using reachable_audio [OF assms] by (auto simp: audio_ok_def split: if_splits)

lemma reachable_music_state_witness:
  "bgm_playing (handle_input TweenDone (handle_input PlayClick (init_session 0 (\<lambda>n. 0))))"
proof -
  have "game_over_ui (handle_input TweenDone (handle_input PlayClick (init_session 0 (\<lambda>n. 0))))"
    "\<not> is_game_over (handle_input TweenDone (handle_input PlayClick (init_session 0 (\<lambda>n. 0))))"
    by code_simp+
  with reachable_music_state [OF start_session_reachable] show ?thesis by simp
qed

lemma mute_float:
  "(set_audio m c s)\<lparr>grid := v_grid\<rparr> = set_audio m c (s\<lparr>grid := v_grid\<rparr>)"
  "(set_audio m c s)\<lparr>queue := v_queue\<rparr> = set_audio m c (s\<lparr>queue := v_queue\<rparr>)"
  "(set_audio m c s)\<lparr>undo_stack := v_undo_stack\<rparr> = set_audio m c (s\<lparr>undo_stack := v_undo_stack\<rparr>)"
  "(set_audio m c s)\<lparr>score := v_score\<rparr> = set_audio m c (s\<lparr>score := v_score\<rparr>)"
  "(set_audio m c s)\<lparr>best_score := v_best_score\<rparr> = set_audio m c (s\<lparr>best_score := v_best_score\<rparr>)"
  "(set_audio m c s)\<lparr>saved_best := v_saved_best\<rparr> = set_audio m c (s\<lparr>saved_best := v_saved_best\<rparr>)"
  "(set_audio m c s)\<lparr>level := v_level\<rparr> = set_audio m c (s\<lparr>level := v_level\<rparr>)"
  "(set_audio m c s)\<lparr>trash_count := v_trash_count\<rparr> = set_audio m c (s\<lparr>trash_count := v_trash_count\<rparr>)"
  "(set_audio m c s)\<lparr>keep_tile := v_keep_tile\<rparr> = set_audio m c (s\<lparr>keep_tile := v_keep_tile\<rparr>)"
  "(set_audio m c s)\<lparr>hints_active := v_hints_active\<rparr> = set_audio m c (s\<lparr>hints_active := v_hints_active\<rparr>)"
  "(set_audio m c s)\<lparr>difficulty := v_difficulty\<rparr> = set_audio m c (s\<lparr>difficulty := v_difficulty\<rparr>)"
  "(set_audio m c s)\<lparr>is_game_over := v_is_game_over\<rparr> = set_audio m c (s\<lparr>is_game_over := v_is_game_over\<rparr>)"
  "(set_audio m c s)\<lparr>is_merging := v_is_merging\<rparr> = set_audio m c (s\<lparr>is_merging := v_is_merging\<rparr>)"
  "(set_audio m c s)\<lparr>hand := v_hand\<rparr> = set_audio m c (s\<lparr>hand := v_hand\<rparr>)"
  "(set_audio m c s)\<lparr>pending := v_pending\<rparr> = set_audio m c (s\<lparr>pending := v_pending\<rparr>)"
  "(set_audio m c s)\<lparr>rng := v_rng\<rparr> = set_audio m c (s\<lparr>rng := v_rng\<rparr>)"
  "(set_audio m c s)\<lparr>bgm_playing := v_bgm_playing\<rparr> = set_audio m c (s\<lparr>bgm_playing := v_bgm_playing\<rparr>)"
  "(set_audio m c s)\<lparr>sfx := v_sfx\<rparr> = set_audio m c (s\<lparr>sfx := v_sfx\<rparr>)"
  "(set_audio m c s)\<lparr>start_armed := v_start_armed\<rparr> = set_audio m c (s\<lparr>start_armed := v_start_armed\<rparr>)"
  "(set_audio m c s)\<lparr>game_over_ui := v_game_over_ui\<rparr> = set_audio m c (s\<lparr>game_over_ui := v_game_over_ui\<rparr>)"
  by simp_all

lemma add_score_mute: "add_score p (set_audio m c s) = set_audio m c (add_score p s)"
  by (simp add: add_score_def Let_def)

lemma replenish_queue_mute: "replenish_queue (set_audio m c s) = set_audio m c (replenish_queue s)"
  by (simp add: replenish_queue_def split: prod.splits)

lemma check_game_over_mute: "check_game_over (set_audio m c s) = set_audio m c (check_game_over s)"
  by (simp add: check_game_over_def trigger_game_over_def)

lemma spawn_next_tile_mute: "spawn_next_tile (set_audio m c s) = set_audio m c (spawn_next_tile s)"
  by (simp add: spawn_next_tile_def Let_def replenish_queue_mute check_game_over_def trigger_game_over_def
      split: list.splits)

lemma fold_apply_merge_event_mute:
  "fold apply_merge_event evs (set_audio m c s) = set_audio m c (fold apply_merge_event evs s)"
proof (induction evs arbitrary: s)
  case (Cons e evs)
  have "apply_merge_event e (set_audio m c s) = set_audio m c (apply_merge_event e s)"
    by (simp add: apply_merge_event_def add_score_def Let_def split: merge_event.splits)
  with Cons.IH [of "apply_merge_event e s"] show ?case by simp
qed simp

lemma create_grid_tile_mute: "create_grid_tile i t (set_audio m c s) = set_audio m c (create_grid_tile i t s)"
proof -
  have "check_merges_session i (set_audio m c x) = set_audio m c (check_merges_session i x)" for x
    using fold_apply_merge_event_mute
    by (simp add: check_merges_session_def mute_float split: prod.splits)
  moreover have "check_level_up (set_audio m c x) = set_audio m c (check_level_up x)" for x
    by (simp add: check_level_up_def Let_def)
  ultimately show ?thesis
    by (simp add: create_grid_tile_def mute_float)
qed

lemma is_valid_drop_mute: "is_valid_drop t target (set_audio m c s) = is_valid_drop t target s"
  by (cases target) (simp_all add: is_valid_drop_def)

lemma save_state_mute: "save_state (set_audio m c s) = set_audio m c (save_state s)"
  by (simp add: save_state_def snapshot_of_def)

lemma try_drop_on_grid_mute:
  "try_drop_on_grid t target (set_audio m c s) = map_option (set_audio m c) (try_drop_on_grid t target s)"
  by (simp add: try_drop_on_grid_def create_grid_tile_mute split: drop_target.splits)

lemma drag_end_mute: "drag_end obj target (set_audio m c s) = set_audio m c (drag_end obj target s)"
proof -
  have keep: "handle_keep_drag_end target (set_audio m c s) = set_audio m c (handle_keep_drag_end target s)"
    by (auto simp: handle_keep_drag_end_def Let_def is_valid_drop_mute save_state_mute
        try_drop_on_grid_mute mute_float split: option.splits)
  have trash: "handle_trash_drop (set_audio m c s) = set_audio m c (handle_trash_drop s)"
    by (simp add: handle_trash_drop_def Let_def save_state_mute mute_float)
  have h2k: "handle_hand_to_keep h (set_audio m c x) = set_audio m c (handle_hand_to_keep h x)" for h x
    by (simp add: handle_hand_to_keep_def spawn_next_tile_mute check_game_over_mute mute_float
        split: option.splits)
  show ?thesis
    by (simp add: drag_end_def Let_def keep trash h2k is_valid_drop_mute save_state_mute
        try_drop_on_grid_mute spawn_next_tile_mute check_game_over_mute mute_float
        split: dragged.splits option.splits drop_target.splits)
qed

lemma undo_mute: "undo (set_audio m c s) = set_audio m c (undo s)"
  by (simp add: undo_def Let_def)

lemma start_new_game_mute: "start_new_game (set_audio m c s) = set_audio m m (start_new_game s)"
proof -
  let ?u = "\<lambda>x. x\<lparr>sfx := sfx s @ [SndRestart], best_score := saved_best s, grid := replicate 16 None,
             undo_stack := [], queue := [], score := 0, level := 1, trash_count := 10,
             keep_tile := None, hints_active := False, is_game_over := False, is_merging := False,
             game_over_ui := True, bgm_playing := True\<rparr>"
  have l: "start_new_game (set_audio m c s) = spawn_next_tile (replenish_queue (set_audio m m (?u s)))"
    unfolding start_new_game_def Let_def play_sound_def
    by (rule arg_cong [where f = "\<lambda>x. spawn_next_tile (replenish_queue x)"], rule session.equality)
      simp_all
  have r: "start_new_game s = spawn_next_tile (replenish_queue (set_audio (is_muted s) (is_muted s) (?u s)))"
    unfolding start_new_game_def Let_def play_sound_def
    by (rule arg_cong [where f = "\<lambda>x. spawn_next_tile (replenish_queue x)"], rule session.equality)
      simp_all
  show ?thesis
    unfolding l r by (simp only: replenish_queue_mute spawn_next_tile_mute) simp
qed

lemma fire_callback_mute: "fire_callback (mute b s) = mute b (fire_callback s)"
  by (simp add: fire_callback_def run_callback_def add_score_mute spawn_next_tile_mute
      start_new_game_mute mute_float split: list.splits callback.splits)

text \<open>
  C23: the mute toggle silences only the music.  Setting \<open>isMuted\<close> (and
  the music's mute with it) commutes with every input other than the two that
  toggle it: every handler, the sound effects it plays included, behaves the
  same whether or not the game is muted.
\<close>

theorem mute_changes_only_music:
  assumes "i \<noteq> KeyM" and "i \<noteq> SpeakerClick"
  shows "handle_input i (s\<lparr>is_muted := b, bgm_muted := b\<rparr>)
         = (handle_input i s)\<lparr>is_muted := b, bgm_muted := b\<rparr>"
  using assms
  by (cases i) (simp_all add: handle_input_def drag_end_mute undo_mute start_new_game_mute
      fire_callback_mute drag_start_def set_difficulty_def toggle_hints_def click_play_def
      click_restart_def)

lemma mute_changes_only_music_witness:
  "let s = handle_input TweenDone (handle_input PlayClick (init_session 0 (\<lambda>n. 0)))
   in sfx (handle_input (DragEnd HandTile (OnCell 0)) (s\<lparr>is_muted := True, bgm_muted := True\<rparr>))
      = sfx (handle_input (DragEnd HandTile (OnCell 0)) s)"
proof -
  have "DragEnd HandTile (OnCell 0) \<noteq> KeyM" "DragEnd HandTile (OnCell 0) \<noteq> SpeakerClick" by simp_all
  from mute_changes_only_music [OF this] show ?thesis by (simp add: Let_def)
qed

lemma fold_apply_merge_event_sfx:
  "sfx (fold apply_merge_event evs s) = sfx s @ replicate (length evs) SndMerge"
proof (induction evs arbitrary: s)
  case (Cons e evs)
  have "sfx (apply_merge_event e s) = sfx s @ [SndMerge]"
    by (simp add: apply_merge_event_def add_score_def Let_def split: merge_event.splits)
  with Cons.IH [of "apply_merge_event e s"] show ?case by (simp add: replicate_app_Cons_same)
qed simp

lemma create_grid_tile_sfx:
  "sfx (create_grid_tile i t s)
   = sfx s @ SndDrop # replicate (length (snd (check_merges i ((grid s)[i := Some t])))) SndMerge"
  using fold_apply_merge_event_sfx
  by (simp add: create_grid_tile_def check_merges_session_def check_level_up_def Let_def
      split: prod.splits)

lemma spawn_next_tile_sfx:
  "\<not> is_game_over s \<Longrightarrow>
   sfx (spawn_next_tile s) = sfx s @ (if is_game_over (spawn_next_tile s) then [SndGameOver] else [])"
  by (simp add: spawn_next_tile_def Let_def replenish_queue_def check_game_over_def
      trigger_game_over_def split: prod.splits list.splits)

text \<open>
  C24: the sounds of a hand tile dropped on an empty cell, in order: the drop,
  one merge sound per match or divide of the cascade, and the game-over sound
  when the drawing of the next tile ends the game.
\<close>

theorem hand_drop_sounds:
  assumes inv: "session_inv s" and ngo: "\<not> is_game_over s"
    and h: "hand s = Some h" and free: "cell_empty (grid s) i"
  shows "sfx (drag_end HandTile (OnCell i) s)
         = sfx s @ SndDrop # replicate (length (snd (check_merges i ((grid s)[i := Some h])))) SndMerge
           @ (if is_game_over (drag_end HandTile (OnCell i) s) then [SndGameOver] else [])"
proof -
  have ngo2: "\<not> is_game_over (create_grid_tile i h (save_state s))"
    using ngo by (simp add: frame_simps save_state_def)
  show ?thesis
    using hand_drop_unfold [OF inv ngo h free] spawn_next_tile_sfx [OF ngo2]
    by (simp add: create_grid_tile_sfx save_state_def)
qed

lemma hand_drop_sounds_witness:
  "let s = (handle_input TweenDone (handle_input PlayClick (init_session 0 (\<lambda>n. 0))))
             \<lparr>grid := empty_grid[4 := Some \<lparr>val = 4, tex = TileRed\<rparr>]\<rparr>
   in sfx (drag_end HandTile (OnCell 0) s) = sfx s @ [SndDrop, SndMerge]"
proof -
  let ?base = "handle_input TweenDone (handle_input PlayClick (init_session 0 (\<lambda>n. 0)))"
  let ?g = "empty_grid[4 := Some \<lparr>val = 4, tex = TileRed\<rparr>]"
  let ?s = "?base\<lparr>grid := ?g\<rparr>"
  have inv0: "session_inv ?base" using start_session_reachable by (rule reachable_inv)
  have "length ?g = 16" "tiles_ok ?g" by code_simp+
  with inv0 have inv: "session_inv ?s" by (rule session_inv_grid)
  have ngo: "\<not> is_game_over ?s" and h: "hand ?s = Some \<lparr>val = 2, tex = TileBlue\<rparr>"
    and e: "cell_empty (grid ?s) 0" by code_simp+
  have n: "length (snd (check_merges 0 ((grid ?s)[0 := Some \<lparr>val = 2, tex = TileBlue\<rparr>]))) = 1"
    and go: "\<not> is_game_over (drag_end HandTile (OnCell 0) ?s)" by code_simp+
  from hand_drop_sounds [OF inv ngo h e] n go show ?thesis by (simp add: Let_def)
qed

end
