(* ===== verification/Geometry.thy ===== *)
theory Geometry
  imports Session
begin

text \<open>
  Pointer drag geometry (src/main.js lines 24--26, 40--57, 138--175, 391--409,
  679--708).  The session model takes a drop as its target region
  (\<open>drop_target\<close>); the code reads the dropped object's coordinates and
  tests them against the layout: the trash within 80 px, the keep slot within
  60 px, a board slot within 60 px of its centre.  Coordinates are rationals
  (Phaser's are floating point; only comparisons of squares are taken), and
  \<open>Phaser.Math.Distance.Between(a, b) < r\<close> with \<open>r > 0\<close> is the comparison
  of the squared distance with \<open>r^2\<close>.  \<open>target_of\<close> classifies a point in
  the order the \<open>dragend\<close> handler tests it; the theorems show that the
  coordinate handlers are the region handlers of the session applied to
  \<open>target_of\<close>, and that the regions are disjoint.
\<close>

type_synonym point = "rat \<times> rat"

definition near :: "point \<Rightarrow> point \<Rightarrow> rat \<Rightarrow> bool" where
  "near p q r = ((fst p - fst q) ^ 2 + (snd p - snd q) ^ 2 < r ^ 2)"

text \<open>\<open>GRID_LAYOUT\<close> (\<open>startX: 380, startY: 505, gap: 125\<close>): the centre of slot \<open>i\<close>.\<close>

definition slot_pos :: "nat \<Rightarrow> point" where
  "slot_pos i = (380 + of_nat (i mod 4) * 125, 505 + of_nat (i div 4) * 125)"

definition trash_pos :: point where
  "trash_pos = (1045, 860)"

definition keep_slot_pos :: point where
  "keep_slot_pos = (1045, 450)"

definition next_slot_pos :: point where
  "next_slot_pos = (950, 650)"

text \<open>\<open>isValidDrop\<close>: some slot within 60 px of the tile is empty.\<close>

definition is_valid_drop_at :: "tile \<Rightarrow> point \<Rightarrow> session \<Rightarrow> bool" where
  "is_valid_drop_at t p s =
     (val t \<noteq> 0 \<and> list_ex (\<lambda>i. near p (slot_pos i) 60 \<and> cell_empty (grid s) i) [0..<16])"

text \<open>\<open>tryDropOnGrid\<close>: the first such slot receives the tile.\<close>

definition try_drop_on_grid_at :: "tile \<Rightarrow> point \<Rightarrow> session \<Rightarrow> session option" where
  "try_drop_on_grid_at t p s =
     (if val t = 0 then None
      else case find (\<lambda>i. near p (slot_pos i) 60 \<and> cell_empty (grid s) i) [0..<16] of
             Some i \<Rightarrow> Some (create_grid_tile i t s)
           | None \<Rightarrow> None)"

definition handle_keep_drag_end_at :: "point \<Rightarrow> session \<Rightarrow> session" where
  "handle_keep_drag_end_at p s =
     (case keep_tile s of
        None \<Rightarrow> s
      | Some k \<Rightarrow>
          if is_valid_drop_at k p s
          then (let s1 = save_state s
                in case try_drop_on_grid_at k p s1 of
                     Some s2 \<Rightarrow> s2\<lparr>keep_tile := None\<rparr>
                   | None \<Rightarrow> s1\<lparr>undo_stack := butlast (undo_stack s1)\<rparr>)
          else s)"

text \<open>The \<open>dragend\<close> listener, with the dropped object's position \<open>p\<close>.\<close>

definition drag_end_at :: "dragged \<Rightarrow> point \<Rightarrow> session \<Rightarrow> session" where
  "drag_end_at obj p s =
     (if is_game_over s then s
      else case obj of
        KeepTile \<Rightarrow> handle_keep_drag_end_at p s
      | HandTile \<Rightarrow>
          (case hand s of
             None \<Rightarrow> s
           | Some h \<Rightarrow>
               if near p trash_pos 80 then handle_trash_drop s
               else if near p keep_slot_pos 60 then handle_hand_to_keep h (save_state s)
               else if is_valid_drop_at h p s
               then (let s1 = save_state s
                     in case try_drop_on_grid_at h p s1 of
                          Some s2 \<Rightarrow> spawn_next_tile s2
                        | None \<Rightarrow> s1\<lparr>undo_stack := butlast (undo_stack s1)\<rparr>)
               else check_game_over s))"

text \<open>
  The region of a point, tested in the order of the \<open>dragend\<close> listener;
  \<open>caught_slot\<close> is the first slot within 60 px.
\<close>

definition caught_slot :: "point \<Rightarrow> nat option" where
  "caught_slot p = find (\<lambda>i. near p (slot_pos i) 60) [0..<16]"

definition target_of :: "point \<Rightarrow> drop_target" where
  "target_of p =
     (if near p trash_pos 80 then OnTrash
      else if near p keep_slot_pos 60 then OnKeep
      else case caught_slot p of
             Some i \<Rightarrow> OnCell i
           | None \<Rightarrow> OffBoard)"

subsection \<open>Distances and the layout\<close>

lemma square_less_abs:
  assumes "x ^ 2 < r ^ 2" "0 \<le> r"
  shows "\<bar>x\<bar> < (r::rat)"
  using assms abs_le_square_iff [of r x] by auto

lemma near_coords:
  assumes "near p q r" "0 \<le> r"
  shows "\<bar>fst p - fst q\<bar> < r \<and> \<bar>snd p - snd q\<bar> < r"
proof -
  have "(fst p - fst q) ^ 2 < r ^ 2" "(snd p - snd q) ^ 2 < r ^ 2"
    using assms(1) zero_le_power2 [of "fst p - fst q"] zero_le_power2 [of "snd p - snd q"]
    unfolding near_def by linarith+
  then show ?thesis
    using assms(2) by (simp add: square_less_abs)
qed

lemma slot_pos_bounds:
  assumes "i < 16"
  shows "380 \<le> fst (slot_pos i) \<and> fst (slot_pos i) \<le> 755
       \<and> 505 \<le> snd (slot_pos i) \<and> snd (slot_pos i) \<le> 880"
proof -
  have "i mod 4 \<le> 3" "i div 4 \<le> 3" using assms by auto
  then have "(of_nat (i mod 4) :: rat) \<le> 3" "(of_nat (i div 4) :: rat) \<le> 3"
    by (simp_all only: of_nat_le_iff [symmetric, where 'a = rat] of_nat_numeral)
  then show ?thesis by (simp add: slot_pos_def)
qed

lemma gap_separates:
  assumes "\<bar>(of_nat a - of_nat b) * 125\<bar> < (120::rat)"
  shows "a = b"
proof (rule ccontr)
  assume "a \<noteq> b"
  then have "a + 1 \<le> b \<or> b + 1 \<le> a" by linarith
  then have "(of_nat a :: rat) + 1 \<le> of_nat b \<or> (of_nat b :: rat) + 1 \<le> of_nat a"
    by (metis of_nat_1 of_nat_add of_nat_le_iff)
  moreover have "(of_nat a - of_nat b) * 125 < (120::rat)" "(of_nat b - of_nat a) * 125 < (120::rat)"
    using assms unfolding abs_less_iff by (simp_all add: algebra_simps)
  ultimately show False by (elim disjE) (simp_all add: algebra_simps)
qed

text \<open>Slots are 125 px apart and catch a tile within 60 px: at most one catches it.\<close>

lemma slot_unique:
  assumes "near p (slot_pos i) 60" "near p (slot_pos j) 60"
  shows "i = j"
proof -
  from near_coords [OF assms(1)] near_coords [OF assms(2)]
  have "\<bar>(of_nat (i mod 4) - of_nat (j mod 4)) * 125\<bar> < (120::rat)"
       "\<bar>(of_nat (i div 4) - of_nat (j div 4)) * 125\<bar> < (120::rat)"
    by (simp_all add: slot_pos_def left_diff_distrib) linarith+
  then have "i mod 4 = j mod 4" "i div 4 = j div 4" by (simp_all only: gap_separates)
  then show ?thesis by (metis div_mult_mod_eq)
qed

lemma slot_not_trash:
  assumes "i < 16" "near p (slot_pos i) 60"
  shows "\<not> near p trash_pos 80"
proof
  assume "near p trash_pos 80"
  from near_coords [OF this] near_coords [OF assms(2)] slot_pos_bounds [OF assms(1)]
  show False by (simp add: trash_pos_def) linarith
qed

lemma slot_not_keep:
  assumes "i < 16" "near p (slot_pos i) 60"
  shows "\<not> near p keep_slot_pos 60"
proof
  assume "near p keep_slot_pos 60"
  from near_coords [OF this] near_coords [OF assms(2)] slot_pos_bounds [OF assms(1)]
  show False by (simp add: keep_slot_pos_def) linarith
qed

lemma find_unique:
  assumes "x \<in> set xs" "P x" "\<And>y. y \<in> set xs \<Longrightarrow> P y \<Longrightarrow> y = x"
  shows "find P xs = Some x"
  using assms
proof (induction xs)
  case (Cons a xs)
  show ?case
  proof (cases "P a")
    case True
    then have "a = x" using Cons.prems(3) [of a] by simp
    then show ?thesis using True by simp
  next
    case False
    then have "x \<in> set xs" using Cons.prems(1,2) by auto
    moreover have "\<And>y. y \<in> set xs \<Longrightarrow> P y \<Longrightarrow> y = x"
      using Cons.prems(3) by (metis list.set_intros(2))
    ultimately have "find P xs = Some x" by (rule Cons.IH [OF _ Cons.prems(2)])
    then show ?thesis using False by simp
  qed
qed simp

lemma find_slot_caught:
  assumes "i < 16" "near p (slot_pos i) 60"
  shows "find (\<lambda>j. near p (slot_pos j) 60 \<and> Q j) [0..<16] = (if Q i then Some i else None)"
proof (cases "Q i")
  case True
  have "find (\<lambda>j. near p (slot_pos j) 60 \<and> Q j) [0..<16] = Some i"
  proof (rule find_unique)
    fix y assume "near p (slot_pos y) 60 \<and> Q y"
    then show "y = i" using slot_unique [of p y i] assms(2) by blast
  qed (use assms True in simp_all)
  then show ?thesis using True by simp
next
  case False
  have "\<not> (near p (slot_pos j) 60 \<and> Q j)" for j
    using False slot_unique [of p i j] assms(2) by blast
  then show ?thesis using False by (simp add: find_None_iff)
qed

lemma target_of_slot:
  assumes "i < 16" "near p (slot_pos i) 60"
  shows "target_of p = OnCell i"
  using find_slot_caught [OF assms, of "\<lambda>_. True"]
  by (simp add: target_of_def caught_slot_def slot_not_trash [OF assms] slot_not_keep [OF assms])

lemma target_of_off_slots:
  assumes "\<forall>i<16. \<not> near p (slot_pos i) 60"
  shows "\<forall>i. target_of p \<noteq> OnCell i"
proof -
  have "caught_slot p = None"
    using assms by (auto simp: caught_slot_def find_None_iff)
  then show ?thesis by (simp add: target_of_def)
qed

lemma target_of_trash: "(target_of p = OnTrash) = near p trash_pos 80"
  by (simp add: target_of_def split: option.split)

lemma target_of_keep: "(target_of p = OnKeep) = (\<not> near p trash_pos 80 \<and> near p keep_slot_pos 60)"
  by (simp add: target_of_def split: option.split)

lemma is_valid_drop_at_target: "is_valid_drop_at t p s = is_valid_drop t (target_of p) s"
proof (cases "\<exists>i<16. near p (slot_pos i) 60")
  case True
  then obtain i where i: "i < 16" "near p (slot_pos i) 60" by blast
  have "list_ex (\<lambda>j. near p (slot_pos j) 60 \<and> cell_empty (grid s) j) [0..<16]
        = cell_empty (grid s) i"
  proof
    assume "list_ex (\<lambda>j. near p (slot_pos j) 60 \<and> cell_empty (grid s) j) [0..<16]"
    then obtain j where "near p (slot_pos j) 60" "cell_empty (grid s) j"
      unfolding list_ex_iff by auto
    moreover from this(1) have "j = i" using i(2) by (rule slot_unique)
    ultimately show "cell_empty (grid s) i" by simp
  next
    assume "cell_empty (grid s) i"
    then show "list_ex (\<lambda>j. near p (slot_pos j) 60 \<and> cell_empty (grid s) j) [0..<16]"
      using i unfolding list_ex_iff by auto
  qed
  then show ?thesis
    using i by (simp add: is_valid_drop_at_def is_valid_drop_def target_of_slot)
next
  case False
  then have off: "\<forall>i<16. \<not> near p (slot_pos i) 60" by blast
  then have "\<not> list_ex (\<lambda>j. near p (slot_pos j) 60 \<and> cell_empty (grid s) j) [0..<16]"
    unfolding list_ex_iff by auto
  then show ?thesis
    using target_of_off_slots [OF off]
    by (cases "target_of p") (simp_all add: is_valid_drop_at_def is_valid_drop_def)
qed

lemma try_drop_on_grid_at_target: "try_drop_on_grid_at t p s = try_drop_on_grid t (target_of p) s"
proof (cases "\<exists>i<16. near p (slot_pos i) 60")
  case True
  then obtain i where i: "i < 16" "near p (slot_pos i) 60" by blast
  have "find (\<lambda>j. near p (slot_pos j) 60 \<and> cell_empty (grid s) j) [0..<16]
        = (if cell_empty (grid s) i then Some i else None)"
    by (rule find_slot_caught [OF i])
  then show ?thesis
    using i by (simp add: try_drop_on_grid_at_def try_drop_on_grid_def target_of_slot)
next
  case False
  then have off: "\<forall>i<16. \<not> near p (slot_pos i) 60" by blast
  then have "find (\<lambda>i. near p (slot_pos i) 60 \<and> cell_empty (grid s) i) [0..<16] = None"
    by (auto simp: find_None_iff)
  then show ?thesis
    using target_of_off_slots [OF off]
    by (cases "target_of p") (simp_all add: try_drop_on_grid_at_def try_drop_on_grid_def)
qed

lemma handle_keep_drag_end_at_target:
  "handle_keep_drag_end_at p s = handle_keep_drag_end (target_of p) s"
  by (simp add: handle_keep_drag_end_at_def handle_keep_drag_end_def is_valid_drop_at_target
                try_drop_on_grid_at_target split: option.split)

lemma drag_end_at_target: "drag_end_at obj p s = drag_end obj (target_of p) s"
  by (simp add: drag_end_at_def drag_end_def handle_keep_drag_end_at_target is_valid_drop_at_target
                try_drop_on_grid_at_target target_of_trash target_of_keep
           split: dragged.split option.split)

subsection \<open>Claims\<close>

text \<open>
  C25: a tile released within 60 px of the centre of slot \<open>i\<close> is handled as
  a drop on cell \<open>i\<close>: the coordinate tests of \<open>dragend\<close>,
  \<open>isValidDrop\<close> and \<open>tryDropOnGrid\<close> select that slot and no other
  region.
\<close>

theorem drag_end_at_slot:
  assumes "i < 16" "near p (slot_pos i) 60"
  shows "drag_end_at obj p s = drag_end obj (OnCell i) s"
  using assms by (simp add: drag_end_at_target target_of_slot)

theorem drag_end_at_slot_witness:
  "(15::nat) < 16 \<and> near (790, 910) (slot_pos 15) 60
   \<and> drag_end_at HandTile (790, 910) (handle_input TweenDone (handle_input PlayClick (init_session 0 (\<lambda>n. 0))))
     = drag_end HandTile (OnCell 15) (handle_input TweenDone (handle_input PlayClick (init_session 0 (\<lambda>n. 0))))"
proof -
  have near: "near (790, 910) (slot_pos 15) 60" by (simp add: near_def slot_pos_def)
  show ?thesis
    by (intro conjI) (simp, fact near, rule drag_end_at_slot [OF _ near], simp)
qed

text \<open>
  C26: a tile released where it rests changes nothing but the game-over check:
  the hand tile at the next-tile slot \<open>(950, 650)\<close> is outside every drop
  region, and the kept tile at the keep slot is not a valid drop.
\<close>

theorem drag_end_at_home:
  "drag_end_at HandTile next_slot_pos s
     = (if is_game_over s \<or> hand s = None then s else check_game_over s)
   \<and> drag_end_at KeepTile keep_slot_pos s = s"
proof -
  have "target_of next_slot_pos = OffBoard" "target_of keep_slot_pos = OnKeep"
    by (simp_all add: target_of_def caught_slot_def near_def next_slot_pos_def keep_slot_pos_def
                      trash_pos_def slot_pos_def upt_rec)
  then show ?thesis
    by (simp add: drag_end_at_target drag_end_def handle_keep_drag_end_def is_valid_drop_def
           split: option.split)
qed

end
