(* ===== verification/Pointer.thy ===== *)
theory Pointer
  imports Geometry
begin

text \<open>
  The pointer gestures of the scene (src/main.js lines 126--175, 722--731):
  \<open>dragstart\<close> picks up the hand tile or the keep container, \<open>drag\<close> moves
  it to the pointer unless the game is over, and \<open>dragend\<close> releases it at
  its last position.  Between gestures the hand tile rests at the next-tile
  slot (it is created there by \<open>spawnNextTile\<close> and \<open>undo\<close>, and
  \<open>returnToStack\<close> sends it back) and the keep container at the keep slot
  (every branch of \<open>handleKeepDragEnd\<close> puts it back), so a gesture starts
  at that rest position.  \<open>pscene\<close> is the session with the gesture in
  progress; \<open>pointer_step\<close> is the scene's listener table at this level,
  and \<open>preachable\<close> the states a run of pointer events reaches.
\<close>

record pscene =
  sess :: session
  gesture :: "(dragged \<times> point) option"

definition rest_pos :: "dragged \<Rightarrow> point" where
  "rest_pos obj = (case obj of HandTile \<Rightarrow> next_slot_pos | KeepTile \<Rightarrow> keep_slot_pos)"

datatype pevent = PDragStart dragged | PDrag point | PDragEnd | PInput input

definition drag_move :: "point \<Rightarrow> pscene \<Rightarrow> pscene" where
  "drag_move p ps =
     (if is_game_over (sess ps) then ps
      else ps\<lparr>gesture := map_option (\<lambda>(obj, _). (obj, p)) (gesture ps)\<rparr>)"

definition drag_release :: "pscene \<Rightarrow> pscene" where
  "drag_release ps =
     (case gesture ps of
        None \<Rightarrow> ps
      | Some (obj, p) \<Rightarrow> \<lparr>sess = drag_end_at obj p (sess ps), gesture = None\<rparr>)"

text \<open>
  The inputs that destroy the hand sprite and create the next one: undo with a
  history (line 780), \<open>startNewGame\<close> (line 298) through R, RESTART or
  the end of the start fade, and the end of the trash animation
  (\<open>spawnNextTile\<close>).  A hand gesture in progress loses its object and
  receives no \<open>dragend\<close>.
\<close>

definition hand_replaced :: "input \<Rightarrow> session \<Rightarrow> bool" where
  "hand_replaced i s =
     (case i of
        KeyZ \<Rightarrow> undo_stack s \<noteq> []
      | KeyR \<Rightarrow> True
      | RestartClick \<Rightarrow> is_game_over s \<and> game_over_ui s
      | TweenDone \<Rightarrow> (case pending s of cb # _ \<Rightarrow> cb = CbStartGame \<or> cb = CbTrashDone | [] \<Rightarrow> False)
      | _ \<Rightarrow> False)"

text \<open>
  Drops reach the session only through \<open>dragend\<close> at the gesture's position;
  the other inputs (keys, clicks, tween completions) go to the session's
  listener table unchanged.
\<close>

definition pointer_step :: "pevent \<Rightarrow> pscene \<Rightarrow> pscene" where
  "pointer_step e ps =
     (case e of
        PDragStart obj \<Rightarrow>
          \<lparr>sess = handle_input DragStart (sess ps), gesture = Some (obj, rest_pos obj)\<rparr>
      | PDrag p \<Rightarrow> drag_move p ps
      | PDragEnd \<Rightarrow> drag_release ps
      | PInput i \<Rightarrow>
          (case i of
             DragEnd _ _ \<Rightarrow> ps
           | _ \<Rightarrow>
               \<lparr>sess = handle_input i (sess ps),
                gesture = (if hand_replaced i (sess ps) \<and> map_option fst (gesture ps) = Some HandTile
                           then None else gesture ps)\<rparr>))"

definition init_pscene :: "nat \<Rightarrow> rng \<Rightarrow> pscene" where
  "init_pscene stored r = \<lparr>sess = init_session stored r, gesture = None\<rparr>"

inductive preachable :: "pscene \<Rightarrow> bool" where
  init: "valid_rng r \<Longrightarrow> preachable (init_pscene stored r)"
| step: "preachable ps \<Longrightarrow> preachable (pointer_step e ps)"

text \<open>The session input an event amounts to, if any.\<close>

definition abs_event :: "pevent \<Rightarrow> pscene \<Rightarrow> input option" where
  "abs_event e ps =
     (case e of
        PDragStart _ \<Rightarrow> Some DragStart
      | PDrag _ \<Rightarrow> None
      | PDragEnd \<Rightarrow> map_option (\<lambda>(obj, p). DragEnd obj (target_of p)) (gesture ps)
      | PInput i \<Rightarrow> (case i of DragEnd _ _ \<Rightarrow> None | _ \<Rightarrow> Some i))"

subsection \<open>Simulation of the session model\<close>

lemma pointer_step_sess:
  "sess (pointer_step e ps)
     = (case abs_event e ps of None \<Rightarrow> sess ps | Some i \<Rightarrow> handle_input i (sess ps))"
  by (auto simp: pointer_step_def abs_event_def drag_move_def drag_release_def
                 handle_input_def drag_end_at_target
           split: pevent.split input.split option.split)

end
