(* ===== verification/Spec2Isabelle.thy ===== *)
theory Spec2Isabelle
  imports Lookahead Undo_Props Placement Phases Audio Pointer
begin

text \<open>
  \<^bold>\<open>Just Divide (Kid Mode): a model of the puzzle engine of src/main.js.\<close>

  The program is a single Phaser scene.  Its game logic lives in module-level
  globals (lines 70--82) mutated by the scene's input handlers; the rest of the
  file draws the board, plays sounds and animates tiles.  The development
  models the game logic and leaves the presentation out.

  \<^bold>\<open>Parts and theories.\<close>
  \<^item> Prelude.thy: reading a JavaScript array slot (\<open>cell_at\<close>), the strict
    test \<open>grid[i] === null\<close> (\<open>cell_empty\<close>) and the count of occupied slots
    (\<open>occupied\<close>), with the list lemmas the components share.
  \<^item> Tiles.thy, TileFactory and TileQueue: \<open>replenishQueue\<close> (lines
    610--620) as \<open>base_max\<close>, \<open>max_val\<close>, \<open>gen_tile\<close> (one loop body)
    and \<open>replenish_loop\<close> (the \<open>while\<close> loop, a \<open>function\<close> with the
    measure \<open>5 - length q\<close>).  \<open>Math.random()\<close> is an explicit supply
    \<open>nat \<Rightarrow> rat\<close> of draws in \<open>[0, 1)\<close>, consumed two per tile.
  \<^item> Grid.thy, GridState: the 16 cells, the neighbour list of \<open>checkMerges\<close>
    and \<open>checkIfMergePossible\<close> (up, down, left, right), the match and divide
    tests, the first-partner search \<open>find_partner\<close> and the hint predicate.
  \<^item> Merge.thy, MergeResolver: \<open>checkMerges\<close> (lines 476--571) split into one
    activation \<open>merge_once\<close> and the recursion \<open>check_merges\<close>, which
    returns the resolved board and the list of match and divide events.  Its
    termination measure is the number of occupied cells, which every divide
    lowers by one.
  \<^item> Session.thy, GameSession with ScoreLevelController and UndoManager: the
    globals as the record \<open>session\<close>; \<open>addScore\<close>, \<open>checkLevelUp\<close>,
    \<open>checkGameOver\<close>, \<open>spawnNextTile\<close>, \<open>createGridTile\<close>,
    \<open>saveState\<close>, \<open>undo\<close>, \<open>startNewGame\<close>, the three drop handlers and
    the \<open>dragend\<close> dispatcher, each one definition with the source's name.
    The audio state (\<open>isMuted\<close>, the music's playing and mute flags) and
    the sound effects played, as the trace \<open>sfx\<close> appended to by
    \<open>play_sound\<close>; \<open>toggle_sound\<close> is \<open>toggleSoundGlobal\<close>.  The start
    popup as the flag \<open>start_armed\<close> of its PLAY listener
    (\<open>click_play\<close> queues the \<open>startNewGame\<close> of its fade-out), and
    the game-over panel as \<open>game_over_ui\<close>, set once \<open>setupUI\<close> has
    run, which arms the RESTART button (\<open>click_restart\<close>) and the undo
    of a finished game.
    The tween callbacks that change the game state are queued in
    \<open>pending\<close> and run by \<open>fire_callback\<close>; \<open>handle_input\<close> is the
    scene's listener table and \<open>reachable\<close> the states a run of inputs
    reaches from the start.
  \<^item> Session_Props.thy: the frame lemmas of every handler
    (\<open>frame_simps\<close>) and the session claims.
  \<^item> Lookahead.thy, TileQueue between inputs: the predicate
    \<open>lookahead_ok\<close> (the queue and every snapshot's queue are empty or
    hold four tiles) and one preservation lemma per handler.
  \<^item> Resolver_Spec.thy, the MergeResolver contract of the specification
    (section 4.4) on a board of values: \<open>spec_partner\<close> and
    \<open>spec_resolve\<close>, with \<open>vals\<close> forgetting the colours of a board of
    tiles.
  \<^item> Undo_Props.thy, UndoManager over a run of drops: \<open>play\<close> (drops, each
    followed by its animations), \<open>trail\<close> (the snapshots the drops take)
    and \<open>all_push\<close> (each drop took one).
  \<^item> Placement.thy, the \<open>placeTile\<close> contract on board values and score
    (\<open>spec_place\<close>: resolve, then 10 per match and 20 per divide), with
    \<open>owed\<close>, the points the pending callbacks still add.
  \<^item> Phases.thy, the GameSession state machine of the specification: the
    phases \<open>Active\<close> and \<open>GameOver\<close> and the inductive relation
    \<open>game_step\<close> of the transitions it allows.
  \<^item> Geometry.thy, the pointer geometry of \<open>dragend\<close>: the layout
    constants (\<open>slot_pos\<close>, \<open>trash_pos\<close>, \<open>keep_slot_pos\<close>,
    \<open>next_slot_pos\<close>), \<open>Distance.Between(a, b) < r\<close> as \<open>near\<close>, and
    \<open>isValidDrop\<close>, \<open>tryDropOnGrid\<close>, \<open>handleKeepDragEnd\<close> and the
    listener on the dropped object's coordinates (\<open>drag_end_at\<close>);
    \<open>target_of\<close> classifies a point into the region the session model takes.
  \<^item> Pointer.thy, the pointer gestures: \<open>pscene\<close> (the session and the
    gesture in progress), \<open>drag_move\<close> (the \<open>drag\<close> listener),
    \<open>drag_release\<close>, \<open>hand_replaced\<close> (the inputs that destroy the
    dragged hand sprite) and \<open>pointer_step\<close>, with \<open>preachable\<close> the
    states a run of pointer events reaches and \<open>abs_event\<close> the session
    input an event amounts to.
  \<^item> Audio.thy: \<open>music_follows\<close> (the music only stops, except at a new
    game or an undo of game over) and the commutation of the mute setting
    with every handler.

  \<^bold>\<open>Interaction.\<close>  A drop on an empty cell takes a snapshot
  (\<open>save_state\<close>), writes the tile, resolves the cascade
  (\<open>check_merges_session\<close> applies the events: a divide adds 20 at once, a
  match queues the callback that adds 10 when its animation ends), checks the
  level, then draws the next hand tile, which refills the queue and checks for
  game over.  Undo restores the last snapshot.

  \<^bold>\<open>What is proved.\<close>  Merge.thy, Grid.thy and Tiles.thy: every cascade
  ends within 15 steps (C1); placement changes the tile count as the
  conservation law says (C2); the match and divide steps do what the rules say
  (C3, C4); resolution stops at a settled cell (C5) and keeps all values at
  least 2 (C6); the hint predicate equals the merge search (C7); the neighbour
  order is the specified one (C8); generated tiles lie in \<open>[2, maxVal]\<close>
  (C9); the queue refill terminates keeping the queued tiles in front (C10).
  Session.thy proves the invariant \<open>session_inv\<close> of every reachable state by
  rule induction over \<open>reachable\<close>, one preservation lemma per handler;
  Session_Props.thy derives from it and from the frame lemmas: reachable states
  are well formed (C11) and keep level, score and best score consistent (C12);
  an exhausted trash changes nothing (C13); a drop on an occupied cell changes
  nothing but ends the game exactly on a full board (C14); a settled hand
  placement ends the game exactly when the board is full (C15); the level-up
  rule (C16).  Lookahead.thy proves that the queue of a reachable state is
  empty or holds four tiles (C17); Resolver_Spec.thy that \<open>check_merges\<close>
  refines the specification's resolver (C18); Undo_Props.thy that undoing once
  per drop, for up to ten drops, restores the state before the first, the
  history less the entries it evicted (C19); Placement.thy that a settled hand
  placement refines the placement contract (C20) and that a new game inherits
  the points of the match animations still running (C28); Phases.thy that
  every input follows the specification's state machine, undo reviving a
  finished game exactly when it has a snapshot and the panel exists (C21), and
  that the kept tile can fill the board without ending the game (C27).
  Audio.thy proves that the music is muted exactly when the game is and plays
  exactly while a started game is not over (C22), that muting commutes with
  every other input, so the effects play muted as well (C23), and the sounds
  of a hand drop (C24).  Geometry.thy proves that the coordinate handlers are
  the region handlers applied to \<open>target_of\<close>, since the slots (125 px
  apart, 60 px catch radius), the trash and the keep slot are disjoint: a tile
  released within 60 px of a slot is dropped on it (C25), and a tile released
  where it rests changes nothing but the game-over check (C26).  Pointer.thy
  proves that a pointer event acts on the session as the session input it
  amounts to (\<open>pointer_step_sess\<close>).  This theory proves that the start
  popup's PLAY button stays armed under a game started with R and discards it
  when clicked (C29).

  \<^bold>\<open>Over-approximations.\<close>  Pending tween callbacks fire in the order
  they were queued (\<open>fire_callback\<close>), where real tweens finish by
  duration (200 ms for merges, 300 ms for the trash and the start fade), so
  the model admits every order the queue allows and some the timing excludes;
  during the trash animation the model still lets the hand tile be dragged,
  which line 417 prevents.  Both only add behaviours, so the invariants hold a
  fortiori for the code.

  \<^bold>\<open>Bounds and fuel.\<close>  No fuel is used: \<open>check_merges\<close> terminates by the
  number of occupied cells (at most 16), \<open>replenish_loop\<close> by
  \<open>5 - length q\<close>, and \<open>settle\<close> runs the callbacks once each
  (\<open>fire_callback ^^ length (pending s)\<close>), which is enough because no
  callback queues another.

  \<^bold>\<open>Not modelled.\<close>  The Phaser configuration and asset loading (lines
  1--68, preload and the start of create), rendering, layout, sprites and text
  (setupUI and the draw functions, lines 845--1018, the visual helpers of lines
  585--608 and 622--677, the popup's and speaker's drawing), the tweens
  themselves (only their completion callbacks are: a gesture starts at the
  rest position the \<open>returnToStack\<close> tween reaches, and pointer coordinates
  are rationals where Phaser has floats), and the floating-point rounding of
  \<open>Math.random() * n\<close>.  The start popup is destroyed only by its own
  fade (line 231); \<open>startNewGame\<close> never touches it, so it stays on screen
  with its PLAY listener armed (\<open>start_armed\<close>) over a game started with R.
  Browser audio policies (a sound refused before the first click) are not
  modelled.

  \<^bold>\<open>Further work.\<close>  The placement contract extended to
  the kept tile and to the hand drawn after a drop; interleavings of inputs
  with pending animations (undo during the trash animation is overridden by
  its callback); the sound trace of the other handlers.
\<close>

section \<open>The start screen\<close>

text \<open>
  C29: the start popup's PLAY listener stays armed whatever the player does
  before clicking it: \<open>startNewGame\<close> (lines 273--316, reached by R)
  never touches \<open>startPopupContainer\<close>, so the popup and its \<open>once\<close>
  listener (line 223) stay in place over the running game.
  When PLAY is clicked and its fade completes, \<open>startNewGame\<close> runs again
  and discards the board, the history and the score of the game in progress.
\<close>

theorem start_popup_restarts_game:
  assumes "start_armed s" "pending s = []"
  shows "start_armed (start_new_game s)
       \<and> grid (handle_input TweenDone (handle_input PlayClick s)) = replicate 16 None
       \<and> undo_stack (handle_input TweenDone (handle_input PlayClick s)) = []
       \<and> score (handle_input TweenDone (handle_input PlayClick s)) = 0"
  using assms
  by (simp add: handle_input_def click_play_def fire_callback_def run_callback_def start_new_game_fresh)

theorem start_popup_restarts_game_witness:
  "let s = handle_input (DragEnd HandTile (OnCell 0)) (handle_input KeyR (init_session 0 (\<lambda>n. 0)))
   in start_armed s \<and> pending s = [] \<and> occupied (grid s) = 1
      \<and> grid (handle_input TweenDone (handle_input PlayClick s)) = replicate 16 None"
proof -
  define s where "s = handle_input (DragEnd HandTile (OnCell 0)) (handle_input KeyR (init_session 0 (\<lambda>n. 0)))"
  have a: "start_armed s" unfolding s_def by code_simp
  have p: "pending s = []" unfolding s_def by code_simp
  have o: "occupied (grid s) = 1" unfolding s_def by code_simp
  from start_popup_restarts_game [OF a p] a p o show ?thesis unfolding Let_def s_def [symmetric] by blast
qed

end
